theory Spec2Isabelle
  imports Complex_Main
begin

section \<open>Numbers of the program\<close>

text \<open>
  A Python \<^verbatim>\<open>float\<close> is modelled by its value: a real number, one of the two
  infinities, or NaN. Arithmetic on finite floats is exact real arithmetic (rounding and
  overflow are abstracted); comparisons follow IEEE 754, so every comparison that
  involves NaN is false.
\<close>

datatype pyfloat = Finite real | PosInf | NegInf | NaN

text \<open>A field that holds an \<^verbatim>\<open>int\<close> at one time and a \<^verbatim>\<open>float\<close> at another.\<close>

datatype pynum = PyInt int | PyFloat real

fun pf_less :: "pyfloat \<Rightarrow> pyfloat \<Rightarrow> bool" where
  "pf_less NaN b = False"
| "pf_less a NaN = False"
| "pf_less (Finite a) (Finite b) = (a < b)"
| "pf_less (Finite a) PosInf = True"
| "pf_less NegInf (Finite b) = True"
| "pf_less NegInf PosInf = True"
| "pf_less a b = False"

fun pf_le :: "pyfloat \<Rightarrow> pyfloat \<Rightarrow> bool" where
  "pf_le NaN b = False"
| "pf_le a NaN = False"
| "pf_le (Finite a) (Finite b) = (a \<le> b)"
| "pf_le a PosInf = True"
| "pf_le NegInf b = True"
| "pf_le a b = False"

text \<open>
  The builtins \<^verbatim>\<open>min(a, b)\<close> and \<^verbatim>\<open>max(a, b)\<close> keep the first argument unless
  the second one compares strictly below (above) it.
\<close>

definition py_min :: "pyfloat \<Rightarrow> pyfloat \<Rightarrow> pyfloat" where
  "py_min a b = (if pf_less b a then b else a)"

definition py_max :: "pyfloat \<Rightarrow> pyfloat \<Rightarrow> pyfloat" where
  "py_max a b = (if pf_less a b then b else a)"

section \<open>RangeEnum\<close>

datatype RangeEnum = RANGE_1 | RANGE_2 | RANGE_3 | RANGE_4 | RANGE_5 | RANGE_6

text \<open>The integer value of a member of the \<^verbatim>\<open>IntEnum\<close>.\<close>

fun ordinal :: "RangeEnum \<Rightarrow> nat" where
  "ordinal RANGE_1 = 0"
| "ordinal RANGE_2 = 1"
| "ordinal RANGE_3 = 2"
| "ordinal RANGE_4 = 3"
| "ordinal RANGE_5 = 4"
| "ordinal RANGE_6 = 5"

definition min_RangeEnum :: "RangeEnum \<Rightarrow> real" where
  "min_RangeEnum r = 10 ^ 2 * 10 ^ ordinal r"

definition max_RangeEnum :: "RangeEnum \<Rightarrow> real" where
  "max_RangeEnum r = 10 ^ 6 * 10 ^ ordinal r"

definition to_amperes :: "RangeEnum \<Rightarrow> int \<Rightarrow> real" where
  "to_amperes r int_representation =
     max_RangeEnum r / 262144000 * real_of_int int_representation * (1 / 10 ^ 15)"

section \<open>Value clamps of FMBICPlusChannel\<close>

definition MIN_VOLTAGE :: int where "MIN_VOLTAGE = 0"
definition MAX_VOLTAGE :: int where "MAX_VOLTAGE = 1700"
definition MIN_OFFSET :: int where "MIN_OFFSET = 0"
definition MAX_OFFSET :: int where "MAX_OFFSET = 99"
definition MIN_EXPOSITION_TIME :: real where "MIN_EXPOSITION_TIME = 1 / 10 ^ 6"
definition MAX_EXPOSITION_TIME :: real where "MAX_EXPOSITION_TIME = 24 * 60 * 60"

definition fit_voltage_range :: "int \<Rightarrow> int" where
  "fit_voltage_range high_voltage =
     (let high_voltage = min high_voltage MAX_VOLTAGE;
          high_voltage = max high_voltage MIN_VOLTAGE
      in high_voltage)"

definition fit_offset_range :: "int \<Rightarrow> int" where
  "fit_offset_range offset =
     (let offset = min offset MAX_OFFSET;
          offset = max offset MIN_OFFSET
      in offset)"

definition fit_exp_time_range :: "pyfloat \<Rightarrow> pyfloat" where
  "fit_exp_time_range exposition_time =
     (let exposition_time = py_min exposition_time (Finite MAX_EXPOSITION_TIME);
          exposition_time = py_max exposition_time (Finite MIN_EXPOSITION_TIME)
      in exposition_time)"

section \<open>Text on the wire\<close>

text \<open>Byte strings and command strings are lists of characters (bytes).\<close>

definition LF :: char where "LF = CHR 0x0A"
definition ACK :: char where "ACK = CHR 0x06"

definition digit_char :: "nat \<Rightarrow> char" where
  "digit_char d = ''0123456789'' ! d"

text \<open>What \<^verbatim>\<open>"{}".format(n)\<close> prints for an integer.\<close>

function str_nat :: "nat \<Rightarrow> string" where
  "str_nat n = (if n < 10 then [digit_char n] else str_nat (n div 10) @ [digit_char (n mod 10)])"
  by pat_completeness auto
termination
  by (relation "measure (\<lambda>n. n)") auto

declare str_nat.simps [simp del]

definition str_int :: "int \<Rightarrow> string" where
  "str_int i = (if i < 0 then CHR ''-'' # str_nat (nat (- i)) else str_nat (nat i))"

text \<open>
  The builtin \<^verbatim>\<open>int(b)\<close> on a byte string: surrounding ASCII whitespace is dropped, a
  sign may come first, then decimal digits, where a single underscore may stand between
  two digits. Anything else raises \<^verbatim>\<open>ValueError\<close>, here \<open>None\<close>. (The
  interpreter's configurable limit on the number of digits is left out.)
\<close>

definition is_space :: "char \<Rightarrow> bool" where
  "is_space c = (c \<in> set [CHR 0x20, CHR 0x09, CHR 0x0A, CHR 0x0B, CHR 0x0C, CHR 0x0D])"

definition is_digit :: "char \<Rightarrow> bool" where
  "is_digit c = (48 \<le> (of_char c :: nat) \<and> (of_char c :: nat) \<le> 57)"

definition digit_val :: "char \<Rightarrow> nat" where
  "digit_val c = of_char c - 48"

fun digits_tail :: "nat \<Rightarrow> string \<Rightarrow> nat option" where
  "digits_tail acc [] = Some acc"
| "digits_tail acc (c # cs) =
     (if is_digit c then digits_tail (10 * acc + digit_val c) cs
      else if c = CHR ''_'' then
        (case cs of
           [] \<Rightarrow> None
         | d # ds \<Rightarrow> if is_digit d then digits_tail (10 * acc + digit_val d) ds else None)
      else None)"

definition digits_value :: "string \<Rightarrow> nat option" where
  "digits_value s =
     (case s of
        [] \<Rightarrow> None
      | c # cs \<Rightarrow> if is_digit c then digits_tail (digit_val c) cs else None)"

definition strip :: "string \<Rightarrow> string" where
  "strip s = rev (dropWhile is_space (rev (dropWhile is_space s)))"

definition int_of_bytes :: "string \<Rightarrow> int option" where
  "int_of_bytes b =
     (case strip b of
        [] \<Rightarrow> None
      | c # cs \<Rightarrow>
          if c = CHR ''-'' then map_option (\<lambda>n. - int n) (digits_value cs)
          else if c = CHR ''+'' then map_option int (digits_value cs)
          else map_option int (digits_value (c # cs)))"

section \<open>FMBICPlusHost: the serial port and the command grammar\<close>

datatype exception = SerialException | DevFailed | ValueError | IndexError | OverflowError

datatype DevState = ON | RUNNING | FAULT

text \<open>
  The device behind the port is the environment. Its script says, exchange by exchange,
  what the port does: \<open>Reply b\<close> makes the next read call return the bytes \<open>b\<close>,
  \<open>ReadError\<close> makes it raise \<^verbatim>\<open>SerialException\<close>, \<open>WriteError\<close> makes the
  next write call raise it. With an empty script nothing arrives and a read returns
  \<^verbatim>\<open>b''\<close> at its timeout.
\<close>

datatype port_behaviour = Reply string | ReadError | WriteError

record host =
  port_written :: "string list"
  timeout :: real
  command_timeout :: real
  lock_count :: nat
  host_state :: DevState
  port_script :: "port_behaviour list"

definition MAX_CHANNELS :: int where "MAX_CHANNELS = 15"

definition port_write :: "host \<Rightarrow> string \<Rightarrow> (exception + unit) \<times> host" where
  "port_write h bs =
     (case port_script h of
        WriteError # rest \<Rightarrow> (Inl SerialException, h\<lparr>port_script := rest\<rparr>)
      | _ \<Rightarrow> (Inr (), h\<lparr>port_written := port_written h @ [bs]\<rparr>))"

text \<open>\<^verbatim>\<open>readline()\<close> and \<^verbatim>\<open>read()\<close>: the bytes the call returns.\<close>

definition port_read :: "host \<Rightarrow> (exception + string) \<times> host" where
  "port_read h =
     (case port_script h of
        Reply answer # rest \<Rightarrow> (Inr answer, h\<lparr>port_script := rest\<rparr>)
      | ReadError # rest \<Rightarrow> (Inl SerialException, h\<lparr>port_script := rest\<rparr>)
      | _ \<Rightarrow> (Inr [], h))"

text \<open>The body of the \<^verbatim>\<open>try\<close> block of \<^verbatim>\<open>query\<close>, after the lock is taken.\<close>

definition query_body :: "host \<Rightarrow> string \<Rightarrow> bool \<Rightarrow> real \<Rightarrow> (exception + int) \<times> host" where
  "query_body h raw_command data_expected execution_time =
     (case port_write h raw_command of
        (Inl e, h1) \<Rightarrow> (Inl e, h1)
      | (Inr u, h1) \<Rightarrow>
          (case port_read (h1\<lparr>timeout := command_timeout h1 + execution_time\<rparr>) of
             (Inl e, h2) \<Rightarrow> (Inl e, h2)
           | (Inr answer, h2) \<Rightarrow>
               if (length answer < 3 \<and> data_expected)
                  \<or> (answer \<noteq> [ACK] \<and> \<not> data_expected) \<or> answer = []
               then (Inr (- 1), h2)
               else if data_expected then
                 (case int_of_bytes (butlast (tl answer)) of
                    None \<Rightarrow> (Inl ValueError, h2)
                  | Some data \<Rightarrow> (Inr data, h2))
               else (Inr 0, h2)))"

text \<open>
  \<^verbatim>\<open>query\<close>: acquire the lock, run the body, turn a \<^verbatim>\<open>SerialException\<close> into
  state FAULT and \<^verbatim>\<open>DevFailed\<close>, and release the lock in the \<^verbatim>\<open>finally\<close> clause.
\<close>

definition query :: "host \<Rightarrow> string \<Rightarrow> bool \<Rightarrow> real \<Rightarrow> (exception + int) \<times> host" where
  "query h raw_command data_expected execution_time =
     (let h0 = h\<lparr>lock_count := lock_count h + 1\<rparr>;
          (r, h1) = query_body h0 raw_command data_expected execution_time;
          (r, h2) = (if r = Inl SerialException
                     then (Inl DevFailed, h1\<lparr>host_state := FAULT\<rparr>) else (r, h1))
      in (r, h2\<lparr>lock_count := lock_count h2 - 1\<rparr>))"

text \<open>A command whose result is thrown away returns \<^verbatim>\<open>None\<close>.\<close>

definition discard :: "(exception + int) \<times> host \<Rightarrow> (exception + unit) \<times> host" where
  "discard rh = (case rh of (Inl e, h) \<Rightarrow> (Inl e, h) | (Inr v, h) \<Rightarrow> (Inr (), h))"

definition read_voltage :: "host \<Rightarrow> int \<Rightarrow> (exception + int) \<times> host" where
  "read_voltage h channel_id =
     (if 0 \<le> channel_id \<and> channel_id \<le> MAX_CHANNELS
      then query h ('':CONF'' @ str_int channel_id @ '':VOLT?'' @ [LF]) True 0
      else (Inr (- 1), h))"

definition write_voltage :: "host \<Rightarrow> int list \<Rightarrow> (exception + unit) \<times> host" where
  "write_voltage h data =
     (if length data = 2 \<and> 0 \<le> data ! 0 \<and> data ! 0 \<le> MAX_CHANNELS
         \<and> MIN_VOLTAGE \<le> data ! 1 \<and> data ! 1 \<le> MAX_VOLTAGE
      then
        (let channel_id = data ! 0; voltage = data ! 1
         in discard (query h ('':CONF'' @ str_int channel_id @ '':VOLT '' @ str_int voltage @ [LF])
                       False 0))
      else (Inr (), h))"

definition read_range :: "host \<Rightarrow> int \<Rightarrow> (exception + int) \<times> host" where
  "read_range h channel_id =
     (if 0 \<le> channel_id \<and> channel_id \<le> MAX_CHANNELS
      then query h ('':CONF'' @ str_int channel_id @ '':CURR:RANG?'' @ [LF]) True 0
      else (Inr (- 1), h))"

definition write_range :: "host \<Rightarrow> int list \<Rightarrow> (exception + unit) \<times> host" where
  "write_range h data =
     (case data of
        channel_id # rng # rest \<Rightarrow>
          discard (query h ('':CONF'' @ str_int channel_id @ '':CURR:RANG '' @ str_int rng @ [LF])
                     False 0)
      | _ \<Rightarrow> (Inl IndexError, h))"

definition read_offset :: "host \<Rightarrow> int \<Rightarrow> (exception + int) \<times> host" where
  "read_offset h channel_id =
     (if 0 \<le> channel_id \<and> channel_id \<le> MAX_CHANNELS
      then query h ('':CONF'' @ str_int channel_id @ '':CURR:OFFS?'' @ [LF]) True 0
      else (Inr (- 1), h))"

definition write_offset :: "host \<Rightarrow> int list \<Rightarrow> (exception + unit) \<times> host" where
  "write_offset h data =
     (if length data = 2 \<and> 0 \<le> data ! 0 \<and> data ! 0 \<le> MAX_CHANNELS
         \<and> MIN_OFFSET \<le> data ! 1 \<and> data ! 1 < MAX_OFFSET
      then
        (let channel_id = data ! 0; offs = data ! 1
         in discard (query h ('':CONF'' @ str_int channel_id @ '':CURR:OFFS '' @ str_int offs @ [LF])
                       False 0))
      else (Inr (), h))"

definition host_reset :: "host \<Rightarrow> int \<Rightarrow> (exception + unit) \<times> host" where
  "host_reset h channel_id = discard (query h (''*RST'' @ str_int channel_id @ [LF]) False 0)"

definition host_measure :: "host \<Rightarrow> int list \<Rightarrow> (exception + int) \<times> host" where
  "host_measure h data =
     (if length data = 2 \<and> 0 \<le> data ! 0 \<and> data ! 0 \<le> MAX_CHANNELS
      then
        (let channel_id = data ! 0;
             execution_time = real_of_int (data ! 1) * MIN_EXPOSITION_TIME
         in query h ('':READ'' @ str_int channel_id @ '':CURR?'' @ [LF]) True execution_time)
      else (Inr (- 1), h))"

section \<open>FMBICPlusChannel\<close>

record channel =
  address :: int
  high_voltage :: int
  range_val :: RangeEnum
  offset :: int
  exposition_time :: pyfloat
  current :: pyfloat
  raw_current :: pynum
  stop_flag :: bool
  state :: DevState

text \<open>
  The channel reaches its host through a \<^verbatim>\<open>DeviceProxy\<close>: whatever the command
  raises on the host's side arrives at the caller as \<^verbatim>\<open>DevFailed\<close>.
\<close>

definition proxy :: "(exception + 'a) \<times> host \<Rightarrow> (exception + 'a) \<times> host" where
  "proxy rh = (case rh of (Inl e, h) \<Rightarrow> (Inl DevFailed, h) | (Inr v, h) \<Rightarrow> (Inr v, h))"


definition float_attribute_accepts :: "real \<Rightarrow> real \<Rightarrow> pyfloat \<Rightarrow> bool" where
  "float_attribute_accepts min_value max_value v =
     (case v of Finite x \<Rightarrow> min_value \<le> x \<and> x \<le> max_value | other \<Rightarrow> False)"

text \<open>The setter of \<^verbatim>\<open>high_voltage\<close>, and the write of the attribute that leads to it.\<close>

definition high_voltage_setter ::
  "channel \<Rightarrow> host \<Rightarrow> int \<Rightarrow> (exception + unit) \<times> channel \<times> host" where
  "high_voltage_setter ch h new_voltage =
     (if state ch = ON then
        (let ch1 = ch\<lparr>high_voltage := fit_voltage_range new_voltage\<rparr>;
             (r, h1) = proxy (write_voltage h [address ch, new_voltage])
         in (r, ch1, h1))
      else (Inl DevFailed, ch\<lparr>state := FAULT\<rparr>, h))"


text \<open>The setter of \<^verbatim>\<open>exposition_time\<close>, and the write of the attribute.\<close>

definition exposition_time_setter :: "channel \<Rightarrow> pyfloat \<Rightarrow> (exception + unit) \<times> channel" where
  "exposition_time_setter ch new_time =
     (if state ch = ON then (Inr (), ch\<lparr>exposition_time := fit_exp_time_range new_time\<rparr>)
      else (Inl DevFailed, ch\<lparr>state := FAULT\<rparr>))"

definition exposition_time_write :: "channel \<Rightarrow> pyfloat \<Rightarrow> (exception + unit) \<times> channel" where
  "exposition_time_write ch new_time =
     (if float_attribute_accepts MIN_EXPOSITION_TIME MAX_EXPOSITION_TIME new_time
      then exposition_time_setter ch new_time
      else (Inl DevFailed, ch))"

definition stop :: "channel \<Rightarrow> (exception + unit) \<times> channel" where
  "stop ch =
     (if state ch = RUNNING then (Inr (), ch\<lparr>stop_flag := True, state := ON\<rparr>)
      else if state ch = ON then (Inr (), ch\<lparr>stop_flag := True\<rparr>)
      else (Inl DevFailed, ch\<lparr>state := FAULT\<rparr>))"

text \<open>\<^verbatim>\<open>int(self._exposition_time / MIN_EXPOSITION_TIME)\<close>: truncation towards zero.\<close>

definition pf_div :: "pyfloat \<Rightarrow> real \<Rightarrow> pyfloat" where
  "pf_div a d = (case a of Finite x \<Rightarrow> Finite (x / d) | other \<Rightarrow> other)"

definition int_of_float :: "pyfloat \<Rightarrow> exception + int" where
  "int_of_float a =
     (case a of
        Finite x \<Rightarrow> Inr (if 0 \<le> x then \<lfloor>x\<rfloor> else \<lceil>x\<rceil>)
      | NaN \<Rightarrow> Inl ValueError
      | _ \<Rightarrow> Inl OverflowError)"

text \<open>
  The measurement loop runs on its own thread. What it sees of the rest of the world at
  each evaluation of the loop condition is a \<open>tick\<close>: the reading of the clock, and
  whether a client has called \<^verbatim>\<open>stop\<close> since the previous one.
\<close>

record tick =
  now :: real
  stop_called :: bool

text \<open>
  The \<^verbatim>\<open>while\<close> loop of \<^verbatim>\<open>__measure\<close>, with the accumulators \<open>result\<close>,
  \<open>result_raw\<close> and \<open>cycles\<close>. The list \<open>seen\<close> only records the values that
  \<^verbatim>\<open>measure\<close> returned, in order; nothing is computed from it. The loop is still
  running (\<open>None\<close>) when the ticks given to it are used up.
\<close>

fun measure_loop ::
  "tick list \<Rightarrow> real \<Rightarrow> channel \<Rightarrow> host \<Rightarrow> real \<Rightarrow> int \<Rightarrow> int \<Rightarrow> int list \<Rightarrow>
   ((exception + real \<times> int \<times> int) \<times> channel \<times> host \<times> int list) option" where
  "measure_loop [] start_time ch h result result_raw cycles seen = None"
| "measure_loop (t # ts) start_time ch h result result_raw cycles seen =
     (let ch = (if stop_called t then snd (stop ch) else ch) in
      if pf_le (Finite (now t - start_time)) (exposition_time ch) then
        if stop_flag ch then Some (Inr (result, result_raw, cycles), ch, h, seen)
        else
          (case int_of_float (pf_div (exposition_time ch) MIN_EXPOSITION_TIME) of
             Inl e \<Rightarrow> Some (Inl e, ch, h, seen)
           | Inr hint \<Rightarrow>
               (case proxy (host_measure h [address ch, hint]) of
                  (Inl e, h1) \<Rightarrow>
                    if e = SerialException
                    then Some (Inl DevFailed, ch\<lparr>state := FAULT\<rparr>, h1, seen)
                    else Some (Inl e, ch, h1, seen)
                | (Inr iter, h1) \<Rightarrow>
                    if iter = - 1
                    then measure_loop ts start_time ch h1 result result_raw cycles (seen @ [iter])
                    else measure_loop ts start_time ch h1
                           (result + to_amperes (range_val ch) iter) (result_raw + iter)
                           (cycles + 1) (seen @ [iter])))
      else Some (Inr (result, result_raw, cycles), ch, h, seen))"

definition channel_measure ::
  "tick list \<Rightarrow> channel \<Rightarrow> host \<Rightarrow> ((exception + unit) \<times> channel \<times> host \<times> int list) option" where
  "channel_measure ticks ch h =
     (case ticks of
        [] \<Rightarrow> None
      | t0 # ts \<Rightarrow>
          (case measure_loop ts (now t0) (ch\<lparr>state := RUNNING\<rparr>) h 0 0 0 [] of
             None \<Rightarrow> None
           | Some (Inl e, ch1, h1, seen) \<Rightarrow> Some (Inl e, ch1, h1, seen)
           | Some (Inr (result, result_raw, cycles), ch1, h1, seen) \<Rightarrow>
               (let ch2 = (if cycles > 0
                           then ch1\<lparr>current := Finite (result / real_of_int cycles),
                                    raw_current := PyFloat (real_of_int result_raw / real_of_int cycles)\<rparr>
                           else ch1\<lparr>current := NaN, raw_current := PyInt (- 1)\<rparr>)
                in Some (Inr (), ch2\<lparr>stop_flag := False, state := ON\<rparr>, h1, seen))))"

text \<open>
  The successful cycles of a run: the values returned by \<^verbatim>\<open>measure\<close> other than the
  sentinel \<open>-1\<close>.
\<close>

definition samples :: "int list \<Rightarrow> int list" where
  "samples seen = filter (\<lambda>v. v \<noteq> - 1) seen"

section \<open>Threads that share the host\<close>

text \<open>
  Every caller of \<^verbatim>\<open>query\<close> runs on a thread of its own, and \<^verbatim>\<open>_lock\<close> is one
  \<^verbatim>\<open>RLock\<close> for all of them. A thread goes through \<^verbatim>\<open>query\<close> in steps, one for each
  call that touches the lock or the port; between two steps of one thread any other
  thread may take steps. The program counter of a thread says where in \<^verbatim>\<open>query\<close> it
  stands: not in it (\<open>Idle\<close>), after \<^verbatim>\<open>acquire\<close>, after \<^verbatim>\<open>write\<close>, after the read
  with the answer in hand, in the \<^verbatim>\<open>except\<close> clause, or through the \<^verbatim>\<open>finally\<close>
  clause with the result.
\<close>

datatype pc = Idle | Locked | Written | Answered string | Failed | Done "exception + int"

text \<open>What has passed over the port, and on behalf of which thread.\<close>

datatype wire_event = Wr nat string | Rd nat string

text \<open>The arguments of a call: \<open>(raw_command, data_expected, execution_time)\<close>.\<close>

type_synonym call = "string \<times> bool \<times> real"

record bus =
  shared :: host
  lock_owner :: "nat option"
  pcs :: "nat \<Rightarrow> pc"
  wire :: "wire_event list"

text \<open>\<^verbatim>\<open>self._lock.release()\<close>: the lock is free again when its count is back at 0.\<close>

definition release :: "bus \<Rightarrow> bus" where
  "release s =
     (let n = lock_count (shared s) - 1
      in s\<lparr>shared := (shared s)\<lparr>lock_count := n\<rparr>,
           lock_owner := (if n = 0 then None else lock_owner s)\<rparr>)"

text \<open>
  One step of thread \<open>t\<close>. In \<^verbatim>\<open>acquire\<close> the thread waits (the state stays as it is)
  while another thread owns the lock. A thread that has returned may call again.
\<close>

definition thread_step :: "(nat \<Rightarrow> call) \<Rightarrow> nat \<Rightarrow> bus \<Rightarrow> bus" where
  "thread_step calls t s =
     (case calls t of (raw_command, data_expected, execution_time) \<Rightarrow>
        (case pcs s t of
           Idle \<Rightarrow>
             if lock_owner s = None \<or> lock_owner s = Some t
             then s\<lparr>shared := (shared s)\<lparr>lock_count := lock_count (shared s) + 1\<rparr>,
                    lock_owner := Some t, pcs := (pcs s)(t := Locked)\<rparr>
             else s
         | Locked \<Rightarrow>
             (case port_write (shared s) raw_command of
                (Inl e, h) \<Rightarrow> s\<lparr>shared := h, pcs := (pcs s)(t := Failed)\<rparr>
              | (Inr u, h) \<Rightarrow>
                  s\<lparr>shared := h, pcs := (pcs s)(t := Written),
                    wire := wire s @ [Wr t raw_command]\<rparr>)
         | Written \<Rightarrow>
             (case port_read ((shared s)\<lparr>timeout := command_timeout (shared s) + execution_time\<rparr>) of
                (Inl e, h) \<Rightarrow> s\<lparr>shared := h, pcs := (pcs s)(t := Failed)\<rparr>
              | (Inr answer, h) \<Rightarrow>
                  s\<lparr>shared := h, pcs := (pcs s)(t := Answered answer),
                    wire := wire s @ [Rd t answer]\<rparr>)
         | Answered answer \<Rightarrow>
             release (s\<lparr>pcs := (pcs s)(t := Done
               (if (length answer < 3 \<and> data_expected)
                   \<or> (answer \<noteq> [ACK] \<and> \<not> data_expected) \<or> answer = []
                then Inr (- 1)
                else if data_expected then
                  (case int_of_bytes (butlast (tl answer)) of
                     None \<Rightarrow> Inl ValueError
                   | Some data \<Rightarrow> Inr data)
                else Inr 0))\<rparr>)
         | Failed \<Rightarrow>
             release (s\<lparr>shared := (shared s)\<lparr>host_state := FAULT\<rparr>,
                        pcs := (pcs s)(t := Done (Inl DevFailed))\<rparr>)
         | Done r \<Rightarrow> s\<lparr>pcs := (pcs s)(t := Idle)\<rparr>))"

text \<open>A schedule names the thread that takes the next step.\<close>

fun run :: "(nat \<Rightarrow> call) \<Rightarrow> nat list \<Rightarrow> bus \<Rightarrow> bus" where
  "run calls [] s = s"
| "run calls (t # ts) s = run calls ts (thread_step calls t s)"

definition start_bus :: "host \<Rightarrow> bus" where
  "start_bus h = \<lparr>shared = h, lock_owner = None, pcs = (\<lambda>t. Idle), wire = []\<rparr>"

text \<open>A thread is in its exchange from \<^verbatim>\<open>acquire\<close> until the \<^verbatim>\<open>finally\<close> clause.\<close>

fun in_exchange :: "pc \<Rightarrow> bool" where
  "in_exchange Idle = False"
| "in_exchange (Done r) = False"
| "in_exchange p = True"

text \<open>
  The exchanges on the wire do not interleave when every read follows directly on the
  write of the same thread. \<open>pending\<close> is the thread whose write is the last event.
\<close>

fun pending :: "nat option \<Rightarrow> wire_event list \<Rightarrow> nat option" where
  "pending p [] = p"
| "pending p (Wr t c # es) = pending (Some t) es"
| "pending p (Rd t a # es) = pending None es"

fun serial_from :: "nat option \<Rightarrow> wire_event list \<Rightarrow> bool" where
  "serial_from p [] = True"
| "serial_from p (Wr t c # es) = serial_from (Some t) es"
| "serial_from p (Rd t a # es) = (p = Some t \<and> serial_from None es)"

definition serial :: "wire_event list \<Rightarrow> bool" where
  "serial es = serial_from None es"

text \<open>
  What holds in every state the threads can reach: exactly the owner of the lock is in
  its exchange, the count of the lock is 1 while it is owned and 0 otherwise, the wire
  is serial, and a thread that has written is the one whose write is the last event.
\<close>

definition bus_inv :: "bus \<Rightarrow> bool" where
  "bus_inv s =
     ((\<forall>t. in_exchange (pcs s t) = (lock_owner s = Some t))
      \<and> lock_count (shared s) = (if lock_owner s = None then 0 else 1)
      \<and> serial (wire s)
      \<and> (\<forall>t. pcs s t = Written \<longrightarrow> pending None (wire s) = Some t))"

section \<open>Concrete states used in the examples\<close>

text \<open>A host with a fresh port, command timeout 0, the lock free, and a given script.\<close>

definition example_host :: "port_behaviour list \<Rightarrow> host" where
  "example_host script =
     \<lparr>port_written = [], timeout = 0, command_timeout = 0, lock_count = 0,
      host_state = ON, port_script = script\<rparr>"

text \<open>
  The channel at address 3 on the first range with an exposition time of 0.01 s; the other
  fields hold the initial values of the class.
\<close>

definition example_channel :: channel where
  "example_channel =
     \<lparr>address = 3, high_voltage = 0, range_val = RANGE_1, offset = 0,
      exposition_time = Finite (1 / 100), current = Finite 0, raw_current = PyInt 0,
      stop_flag = False, state = ON\<rparr>"

definition tick_at :: "real \<Rightarrow> tick" where
  "tick_at t = \<lparr>now = t, stop_called = False\<rparr>"

text \<open>Thread 0 measures on channel 3, every other thread on channel 5.\<close>

definition example_calls :: "nat \<Rightarrow> call" where
  "example_calls t =
     (if t = 0 then ('':READ3:CURR?\<newline>'', True, 1 / 100) else ('':READ5:CURR?\<newline>'', True, 1 / 100))"

section \<open>Properties of the numeric helpers\<close>

lemma fit_exp_time_range_Finite:
  "fit_exp_time_range (Finite x) = Finite (max (min x 86400) (1 / 10 ^ 6))"
  by (simp add: fit_exp_time_range_def py_min_def py_max_def
      MIN_EXPOSITION_TIME_def MAX_EXPOSITION_TIME_def min_def max_def)

lemma fit_exp_time_range_NaN: "fit_exp_time_range NaN = NaN"
  by (simp add: fit_exp_time_range_def py_min_def py_max_def)

lemma fit_exp_time_range_PosInf: "fit_exp_time_range PosInf = Finite 86400"
  by (simp add: fit_exp_time_range_def py_min_def py_max_def
      MIN_EXPOSITION_TIME_def MAX_EXPOSITION_TIME_def)

lemma fit_exp_time_range_NegInf: "fit_exp_time_range NegInf = Finite (1 / 10 ^ 6)"
  by (simp add: fit_exp_time_range_def py_min_def py_max_def
      MIN_EXPOSITION_TIME_def MAX_EXPOSITION_TIME_def)



text \<open>
  C1, as stated, fails: \<^verbatim>\<open>fit_exp_time_range(-1)\<close> is not \<open>-1\<close> but the lower
  limit \<open>1e-6\<close>.
\<close>

theorem fit_exp_time_range_changes_negative:
  "fit_exp_time_range (Finite (- 1)) = Finite (1 / 10 ^ 6)
   \<and> fit_exp_time_range (Finite (- 1)) \<noteq> Finite (- 1)"
  by (simp add: fit_exp_time_range_def py_min_def py_max_def
      MIN_EXPOSITION_TIME_def MAX_EXPOSITION_TIME_def)

text \<open>
  C1, as amended. \<^verbatim>\<open>fit_exp_time_range\<close> is a clamp: it returns NaN unchanged and
  brings every other value, finite or infinite, positive or not, into
  \<open>[1e-6, 86400]\<close>. So \<open>-1\<close> and \<open>0\<close> and \<open>1e-9\<close> become \<open>1e-6\<close>, and
  \<open>100000\<close> and plus infinity become \<open>86400\<close>.
\<close>

theorem fit_exp_time_range_clamps:
  "fit_exp_time_range t =
     (case t of
        Finite x \<Rightarrow> Finite (if x < 1 / 10 ^ 6 then 1 / 10 ^ 6 else if 86400 < x then 86400 else x)
      | PosInf \<Rightarrow> Finite 86400
      | NegInf \<Rightarrow> Finite (1 / 10 ^ 6)
      | NaN \<Rightarrow> NaN)
   \<and> fit_exp_time_range (Finite (- 1)) = Finite (1 / 10 ^ 6)
   \<and> fit_exp_time_range (Finite 0) = Finite (1 / 10 ^ 6)
   \<and> fit_exp_time_range NaN = NaN
   \<and> fit_exp_time_range (Finite 100000) = Finite 86400
   \<and> fit_exp_time_range (Finite (1 / 10 ^ 9)) = Finite (1 / 10 ^ 6)
   \<and> fit_exp_time_range (Finite 5) = Finite 5"
  by (cases t)
    (simp_all add: fit_exp_time_range_def py_min_def py_max_def
      MIN_EXPOSITION_TIME_def MAX_EXPOSITION_TIME_def)

text \<open>
  What keeps a non-positive or non-finite value from being applied is the attribute:
  such a write is refused before the setter runs, and the channel is left as it was. On
  every value that the attribute accepts the clamp changes nothing.
\<close>

lemma exposition_time_write_refuses:
  "\<not> float_attribute_accepts MIN_EXPOSITION_TIME MAX_EXPOSITION_TIME t \<Longrightarrow>
   exposition_time_write ch t = (Inl DevFailed, ch)"
  by (simp add: exposition_time_write_def)

lemma exposition_time_write_refuses_examples:
  "exposition_time_write ch (Finite (- 1)) = (Inl DevFailed, ch)"
  "exposition_time_write ch (Finite 0) = (Inl DevFailed, ch)"
  "exposition_time_write ch NaN = (Inl DevFailed, ch)"
  "exposition_time_write ch PosInf = (Inl DevFailed, ch)"
  "exposition_time_write ch (Finite 100000) = (Inl DevFailed, ch)"
  by (simp_all add: exposition_time_write_def float_attribute_accepts_def
      MIN_EXPOSITION_TIME_def MAX_EXPOSITION_TIME_def)

lemma exposition_time_write_accepts:
  assumes "float_attribute_accepts MIN_EXPOSITION_TIME MAX_EXPOSITION_TIME t" "state ch = ON"
  shows "exposition_time_write ch t = (Inr (), ch\<lparr>exposition_time := t\<rparr>)"
proof -
  from assms(1) obtain x where t: "t = Finite x" and x: "1 / 10 ^ 6 \<le> x" "x \<le> 86400"
    by (cases t) (simp_all add: float_attribute_accepts_def MIN_EXPOSITION_TIME_def
        MAX_EXPOSITION_TIME_def)
  from x have "fit_exp_time_range (Finite x) = Finite x"
    by (simp add: fit_exp_time_range_def py_min_def py_max_def
        MIN_EXPOSITION_TIME_def MAX_EXPOSITION_TIME_def)
  with assms t show ?thesis
    by (simp add: exposition_time_write_def exposition_time_setter_def)
qed

text \<open>
  C8. The six ranges have the ordinals 0 to 5. For every range \<open>r\<close> and every raw
  count, \<^verbatim>\<open>to_amperes\<close> is \<open>max(r) / 262144000 * raw * 1e-15\<close> with
  \<open>max(r) = 1e6 * 10^r\<close>, that is \<open>1e6, 1e7, 1e8, 1e9, 1e10, 1e11\<close> fA. A raw count
  of 0 converts to 0 A. The full-scale count 262144000 converts to \<open>max(r) * 1e-15\<close>:
  to \<open>1e-9\<close> A on the first range, and to \<open>1e-8, 1e-7, 1e-6, 1e-5, 1e-4\<close> A on the
  others.
\<close>

theorem to_amperes_formula:
  "to_amperes r raw = max_RangeEnum r / 262144000 * real_of_int raw * (1 / 10 ^ 15)
   \<and> max_RangeEnum r = 10 ^ 6 * 10 ^ ordinal r
   \<and> to_amperes r raw = 10 ^ 6 * 10 ^ ordinal r / 262144000 * real_of_int raw * (1 / 10 ^ 15)
   \<and> map ordinal [RANGE_1, RANGE_2, RANGE_3, RANGE_4, RANGE_5, RANGE_6] = [0, 1, 2, 3, 4, 5]
   \<and> r \<in> set [RANGE_1, RANGE_2, RANGE_3, RANGE_4, RANGE_5, RANGE_6]
   \<and> map max_RangeEnum [RANGE_1, RANGE_2, RANGE_3, RANGE_4, RANGE_5, RANGE_6]
       = [1000000, 10000000, 100000000, 1000000000, 10000000000, 100000000000]
   \<and> to_amperes r 0 = 0
   \<and> to_amperes RANGE_1 0 = 0
   \<and> to_amperes RANGE_1 262144000 = 1 / 10 ^ 9
   \<and> to_amperes r 262144000 = max_RangeEnum r * (1 / 10 ^ 15)
   \<and> map (\<lambda>r. to_amperes r 262144000) [RANGE_1, RANGE_2, RANGE_3, RANGE_4, RANGE_5, RANGE_6]
       = [1 / 10 ^ 9, 1 / 10 ^ 8, 1 / 10 ^ 7, 1 / 10 ^ 6, 1 / 10 ^ 5, 1 / 10 ^ 4]
   \<and> to_amperes RANGE_1 131072000 = 5 / 10 ^ 10
   \<and> to_amperes RANGE_3 1 = 1 / 2621440000000000"
  by (cases r) (simp_all add: to_amperes_def max_RangeEnum_def)

section \<open>Printing and parsing integers\<close>









lemma int_of_bytes_examples:
  "int_of_bytes ''0'' = Some 0"
  "int_of_bytes ''0123456789'' = Some 123456789"
  "int_of_bytes '' 42 '' = Some 42"
  "int_of_bytes [CHR 0x09, CHR 0x0B, CHR ''4'', CHR ''2'', CHR 0x0C, CHR 0x0D, CHR 0x0A] = Some 42"
  "int_of_bytes ''-7'' = Some (- 7)"
  "int_of_bytes ''+7'' = Some 7"
  "int_of_bytes ''1_000'' = Some 1000"
  "int_of_bytes ''1__0'' = None"
  "int_of_bytes ''_1'' = None"
  "int_of_bytes ''1_'' = None"
  "int_of_bytes ''- 7'' = None"
  "int_of_bytes ''1 2'' = None"
  "int_of_bytes ''ab'' = None"
  "int_of_bytes ''/'' = None"
  "int_of_bytes '':'' = None"
  "int_of_bytes ''-'' = None"
  "int_of_bytes '' '' = None"
  "int_of_bytes '''' = None"
  by (simp_all add: int_of_bytes_def strip_def is_space_def digits_value_def is_digit_def
      digit_val_def)

lemma str_int_examples:
  "str_int 0 = ''0''" "str_int 3 = ''3''" "str_int 16 = ''16''" "str_int 1700 = ''1700''"
  "str_int (- 12) = ''-12''" "str_int 1090 = ''1090''"
  by (simp_all add: str_int_def str_nat.simps digit_char_def)


section \<open>FMBICPlusHost.query\<close>






section \<open>The commands of FMBICPlusHost\<close>

lemma port_read_port_written: "port_written (snd (port_read h)) = port_written h"
  by (simp add: port_read_def split: list.splits port_behaviour.splits)

lemma query_body_port_written:
  assumes "\<forall>rest. port_script h \<noteq> WriteError # rest"
  shows "port_written (snd (query_body h raw_command data_expected execution_time))
         = port_written h @ [raw_command]"
proof -
  let ?w = "h\<lparr>port_written := port_written h @ [raw_command]\<rparr>"
  let ?t = "?w\<lparr>timeout := command_timeout ?w + execution_time\<rparr>"
  from assms have w: "port_write h raw_command = (Inr (), ?w)"
    by (auto simp: port_write_def split: list.splits port_behaviour.splits)
  obtain r h2 where r: "port_read ?t = (r, h2)"
    by (cases "port_read ?t")
  with port_read_port_written [of ?t] have "port_written h2 = port_written h @ [raw_command]"
    by simp
  then show ?thesis
    unfolding query_body_def w using r
    by (simp split: sum.splits option.splits)
qed

lemma query_snd:
  "port_written (snd (query h c d e))
     = port_written (snd (query_body (h\<lparr>lock_count := lock_count h + 1\<rparr>) c d e))"
  by (simp add: query_def Let_def split: prod.splits)

lemma query_port_written:
  assumes "\<forall>rest. port_script h \<noteq> WriteError # rest"
  shows "port_written (snd (query h raw_command data_expected execution_time))
         = port_written h @ [raw_command]"
  using assms by (simp add: query_snd query_body_port_written)

lemma discard_snd: "snd (discard rh) = snd rh"
  by (cases rh) (simp add: discard_def split: sum.splits)

lemma discard_port_written: "port_written (snd (discard rh)) = port_written (snd rh)"
  by (simp add: discard_snd)


text \<open>
  C5, as amended. With an address outside 0..15, \<^verbatim>\<open>read_voltage\<close>, \<^verbatim>\<open>read_range\<close>,
  \<^verbatim>\<open>read_offset\<close> and \<^verbatim>\<open>measure\<close> return the sentinel \<open>-1\<close> and leave the host
  as it was, so that nothing is written to the port; \<^verbatim>\<open>write_voltage\<close> and
  \<^verbatim>\<open>write_offset\<close> leave the host as it was too and return nothing.
\<close>

theorem invalid_address_sends_nothing:
  assumes "channel_id < 0 \<or> 15 < channel_id"
  shows "read_voltage h channel_id = (Inr (- 1), h)
       \<and> read_range h channel_id = (Inr (- 1), h)
       \<and> read_offset h channel_id = (Inr (- 1), h)
       \<and> host_measure h [channel_id, hint] = (Inr (- 1), h)
       \<and> write_voltage h [channel_id, volts] = (Inr (), h)
       \<and> write_offset h [channel_id, offs] = (Inr (), h)"
  using assms
  by (auto simp: read_voltage_def read_range_def read_offset_def host_measure_def
      write_voltage_def write_offset_def MAX_CHANNELS_def)

theorem invalid_address_sends_nothing_witness:
  "read_voltage (example_host [Reply '':1500\<newline>'']) 16 = (Inr (- 1), example_host [Reply '':1500\<newline>''])
   \<and> host_measure (example_host [Reply '':1500\<newline>'']) [- 1, 10000]
       = (Inr (- 1), example_host [Reply '':1500\<newline>''])
   \<and> write_voltage (example_host [Reply [ACK]]) [16, 100] = (Inr (), example_host [Reply [ACK]])"
proof -
  have a: "(16::int) < 0 \<or> 15 < (16::int)" and b: "(- 1::int) < 0 \<or> 15 < (- 1::int)"
    by simp_all
  show ?thesis
    using invalid_address_sends_nothing [OF a, of "example_host [Reply '':1500\<newline>'']"]
      invalid_address_sends_nothing [OF b, of "example_host [Reply '':1500\<newline>'']" 10000]
      invalid_address_sends_nothing [OF a, of "example_host [Reply [ACK]]" _ 100]
    by simp
qed

text \<open>
  C5, as stated, fails: \<^verbatim>\<open>reset\<close> and \<^verbatim>\<open>write_range\<close> do not look at the address.
  With address 16 each of them writes its command to the port. \<^verbatim>\<open>write_voltage\<close> with
  address 16 sends nothing, and returns nothing: there is no sentinel.
\<close>

theorem reset_sends_to_invalid_address:
  "port_written (example_host [Reply [ACK]]) = []
   \<and> port_written (snd (host_reset (example_host [Reply [ACK]]) 16)) = [''*RST16\<newline>'']
   \<and> port_written (snd (write_range (example_host [Reply [ACK]]) [16, 1]))
       = ['':CONF16:CURR:RANG 1\<newline>'']
   \<and> write_voltage (example_host [Reply [ACK]]) [16, 100] = (Inr (), example_host [Reply [ACK]])"
  by (simp add: host_reset_def write_range_def discard_port_written query_port_written
      write_voltage_def MAX_CHANNELS_def
      example_host_def str_int_def str_nat.simps digit_char_def LF_def)

text \<open>
  C10. \<^verbatim>\<open>write_offset\<close> runs its query, which writes the command to the port, exactly
  when it is given two values with \<open>0 \<le> channel_id \<le> 15\<close> and \<open>0 \<le> offset < 99\<close>.
  Every other call, the one with offset 99 among them, returns nothing and leaves the
  host as it was.
\<close>

theorem write_offset_guard:
  "(length data = 2 \<and> 0 \<le> data ! 0 \<and> data ! 0 \<le> 15 \<and> 0 \<le> data ! 1 \<and> data ! 1 < 99
      \<longrightarrow> write_offset h data
          = discard (query h ('':CONF'' @ str_int (data ! 0) @ '':CURR:OFFS '' @ str_int (data ! 1) @ [LF])
                       False 0))
   \<and> (length data = 2 \<and> 0 \<le> data ! 0 \<and> data ! 0 \<le> 15 \<and> 0 \<le> data ! 1 \<and> data ! 1 < 99
       \<and> (\<forall>rest. port_script h \<noteq> WriteError # rest)
      \<longrightarrow> port_written (snd (write_offset h data))
          = port_written h @ ['':CONF'' @ str_int (data ! 0) @ '':CURR:OFFS '' @ str_int (data ! 1) @ [LF]])
   \<and> (\<not> (length data = 2 \<and> 0 \<le> data ! 0 \<and> data ! 0 \<le> 15 \<and> 0 \<le> data ! 1 \<and> data ! 1 < 99)
      \<longrightarrow> write_offset h data = (Inr (), h))
   \<and> write_offset h [channel_id, 99] = (Inr (), h)"
  by (simp add: write_offset_def MAX_CHANNELS_def MIN_OFFSET_def MAX_OFFSET_def Let_def
      discard_port_written query_port_written)

theorem write_offset_guard_witness:
  "port_written (snd (write_offset (example_host [Reply [ACK]]) [3, 98])) = ['':CONF3:CURR:OFFS 98\<newline>'']
   \<and> write_offset (example_host [Reply [ACK]]) [3, 99] = (Inr (), example_host [Reply [ACK]])
   \<and> write_offset (example_host [Reply [ACK]]) [16, 50] = (Inr (), example_host [Reply [ACK]])
   \<and> write_offset (example_host [Reply [ACK]]) [3, 50, 0] = (Inr (), example_host [Reply [ACK]])"
proof -
  let ?h = "example_host [Reply [ACK]]"
  have s: "\<forall>rest. port_script ?h \<noteq> WriteError # rest" and p: "port_written ?h = []"
    by (simp_all add: example_host_def)
  have n: "str_int 3 = ''3''" "str_int 98 = ''98''"
    by (simp_all add: str_int_def str_nat.simps digit_char_def)
  have 1: "port_written (snd (write_offset ?h [3, 98])) = ['':CONF3:CURR:OFFS 98\<newline>'']"
    using write_offset_guard [of "[3, 98]" ?h, THEN conjunct2, THEN conjunct1] s
    by (simp add: n p LF_def)
  have 2: "write_offset ?h [3, 99] = (Inr (), ?h)"
    using write_offset_guard [of "[3, 99]" ?h, THEN conjunct2, THEN conjunct2, THEN conjunct1]
    by simp
  have 3: "write_offset ?h [16, 50] = (Inr (), ?h)"
    using write_offset_guard [of "[16, 50]" ?h, THEN conjunct2, THEN conjunct2, THEN conjunct1]
    by simp
  have 4: "write_offset ?h [3, 50, 0] = (Inr (), ?h)"
    using write_offset_guard [of "[3, 50, 0]" ?h, THEN conjunct2, THEN conjunct2, THEN conjunct1]
    by simp
  from 1 2 3 4 show ?thesis by blast
qed

section \<open>Writing the high voltage\<close>




text \<open>
  The setter on its own stores the clamped value and hands the value as it came to
  \<^verbatim>\<open>write_voltage\<close>, which drops a value outside 0..1700; the limits of the attribute
  see to it that the setter is never given one.
\<close>

lemma high_voltage_setter_outside_limits:
  "high_voltage_setter example_channel (example_host [Reply [ACK]]) 2000
     = (Inr (), example_channel\<lparr>high_voltage := 1700\<rparr>, example_host [Reply [ACK]])"
  by (simp add: high_voltage_setter_def example_channel_def write_voltage_def proxy_def
      fit_voltage_range_def MIN_VOLTAGE_def MAX_VOLTAGE_def)

section \<open>The measurement loop\<close>

lemma stop_keeps:
  "range_val (snd (stop ch)) = range_val ch"
  "exposition_time (snd (stop ch)) = exposition_time ch"
  "address (snd (stop ch)) = address ch"
  by (simp_all add: stop_def)

lemma stop_not_FAULT:
  "state ch \<noteq> FAULT \<Longrightarrow> state (snd (stop ch)) = ON \<and> stop_flag (snd (stop ch))"
  by (cases "state ch") (simp_all add: stop_def)

lemma proxy_not_SerialException: "fst (proxy rh) \<noteq> Inl SerialException"
  by (cases rh) (simp add: proxy_def split: sum.splits)

lemma proxy_Inl: "proxy rh = (Inl e, h1) \<Longrightarrow> e = DevFailed"
  by (cases rh) (auto simp: proxy_def split: sum.splits)

lemma samples_snoc:
  "samples (seen @ [v]) = (if v = - 1 then samples seen else samples seen @ [v])"
  by (simp add: samples_def)

lemma measure_loop_accumulates:
  assumes "measure_loop ts start_time ch h result result_raw cycles seen
             = Some (Inr (result', result_raw', cycles'), ch', h', seen')"
    and "result = sum_list (map (to_amperes (range_val ch)) (samples seen))"
    and "result_raw = sum_list (samples seen)"
    and "cycles = int (length (samples seen))"
  shows "result' = sum_list (map (to_amperes (range_val ch)) (samples seen'))
       \<and> result_raw' = sum_list (samples seen')
       \<and> cycles' = int (length (samples seen'))
       \<and> range_val ch' = range_val ch"
  using assms
proof (induction ts arbitrary: ch h result result_raw cycles seen)
  case Nil
  then show ?case by simp
next
  case (Cons t ts)
  define c where "c = (if stop_called t then snd (stop ch) else ch)"
  have rc: "range_val c = range_val ch"
    by (simp add: c_def stop_keeps)
  note run = Cons.prems(1) [unfolded measure_loop.simps Let_def, folded c_def]
  show ?case
  proof (cases "pf_le (Finite (now t - start_time)) (exposition_time c) \<and> \<not> stop_flag c")
    case False
    with run Cons.prems(2-4) rc show ?thesis
      by (auto split: if_splits)
  next
    case True
    with run obtain hint where hint:
      "int_of_float (pf_div (exposition_time c) MIN_EXPOSITION_TIME) = Inr hint"
      by (auto split: sum.splits)
    obtain r h1 where m: "proxy (host_measure h [address c, hint]) = (r, h1)"
      by (cases "proxy (host_measure h [address c, hint])")
    with run True hint obtain iter where r: "r = Inr iter"
      by (cases r) (auto split: if_splits)
    show ?thesis
    proof (cases "iter = - 1")
      case True
      with run \<open>pf_le _ _ \<and> _\<close> hint m r
      have "measure_loop ts start_time c h1 result result_raw cycles (seen @ [iter])
              = Some (Inr (result', result_raw', cycles'), ch', h', seen')"
        by simp
      from Cons.IH [OF this] Cons.prems(2-4) rc True show ?thesis
        by (simp add: samples_snoc)
    next
      case False
      with run \<open>pf_le _ _ \<and> _\<close> hint m r
      have "measure_loop ts start_time c h1 (result + to_amperes (range_val c) iter)
              (result_raw + iter) (cycles + 1) (seen @ [iter])
              = Some (Inr (result', result_raw', cycles'), ch', h', seen')"
        by simp
      from Cons.IH [OF this] Cons.prems(2-4) rc False show ?thesis
        by (simp add: samples_snoc)
    qed
  qed
qed


lemma channel_measure_Inr:
  assumes "channel_measure ticks ch h = Some (Inr (), ch', h', seen)"
  obtains t0 ts result result_raw cycles ch1 where
    "ticks = t0 # ts"
    "measure_loop ts (now t0) (ch\<lparr>state := RUNNING\<rparr>) h 0 0 0 []
       = Some (Inr (result, result_raw, cycles), ch1, h', seen)"
    "ch' = (if cycles > 0
            then ch1\<lparr>current := Finite (result / real_of_int cycles),
                     raw_current := PyFloat (real_of_int result_raw / real_of_int cycles)\<rparr>
            else ch1\<lparr>current := NaN, raw_current := PyInt (- 1)\<rparr>)
           \<lparr>stop_flag := False, state := ON\<rparr>"
  using assms
  by (auto simp: channel_measure_def Let_def split: list.splits option.splits sum.splits)

text \<open>
  C3. A measurement that completes (the loop ended by timeout or by cancellation, and
  nothing was raised) has accumulated exactly the readings other than the sentinel
  \<open>-1\<close>. With at least one such reading, \<open>current\<close> is the mean of their
  conversions to amperes and \<open>raw_current\<close> is the mean of the readings; with none,
  \<open>current\<close> is NaN and \<open>raw_current\<close> is \<open>-1\<close>. In both cases the
  cancellation flag is cleared and the state is ON.
\<close>

theorem measure_averages:
  assumes "channel_measure ticks ch h = Some (Inr (), ch', h', seen)"
  shows "(0 < length (samples seen) \<longrightarrow>
            current ch' = Finite (sum_list (map (to_amperes (range_val ch)) (samples seen))
                                  / real (length (samples seen)))
          \<and> raw_current ch' = PyFloat (real_of_int (sum_list (samples seen))
                                       / real (length (samples seen))))
       \<and> (length (samples seen) = 0 \<longrightarrow> current ch' = NaN \<and> raw_current ch' = PyInt (- 1))
       \<and> \<not> stop_flag ch' \<and> state ch' = ON"
proof -
  obtain t0 ts result result_raw cycles ch1 where "ticks = t0 # ts" and
    loop: "measure_loop ts (now t0) (ch\<lparr>state := RUNNING\<rparr>) h 0 0 0 []
       = Some (Inr (result, result_raw, cycles), ch1, h', seen)"
    and ch': "ch' = (if cycles > 0
            then ch1\<lparr>current := Finite (result / real_of_int cycles),
                     raw_current := PyFloat (real_of_int result_raw / real_of_int cycles)\<rparr>
            else ch1\<lparr>current := NaN, raw_current := PyInt (- 1)\<rparr>)
           \<lparr>stop_flag := False, state := ON\<rparr>"
    by (rule channel_measure_Inr [OF assms])
  have "result = sum_list (map (to_amperes (range_val (ch\<lparr>state := RUNNING\<rparr>))) (samples seen))
       \<and> result_raw = sum_list (samples seen)
       \<and> cycles = int (length (samples seen))
       \<and> range_val ch1 = range_val (ch\<lparr>state := RUNNING\<rparr>)"
    by (rule measure_loop_accumulates [OF loop]) (simp_all add: samples_def)
  with ch' show ?thesis
    by simp
qed

text \<open>
  The loop returns: once the clock has passed the exposition time, or a client has
  called \<^verbatim>\<open>stop\<close>, it ends at that tick at the latest.
\<close>

lemma measure_loop_returns:
  assumes "\<exists>t \<in> set ts. stop_called t \<or> \<not> pf_le (Finite (now t - start_time)) (exposition_time ch)"
    and "state ch \<noteq> FAULT"
  shows "measure_loop ts start_time ch h result result_raw cycles seen \<noteq> None"
  using assms
proof (induction ts arbitrary: ch h result result_raw cycles seen)
  case Nil
  then show ?case by simp
next
  case (Cons t ts)
  define c where "c = (if stop_called t then snd (stop ch) else ch)"
  have ec: "exposition_time c = exposition_time ch" and sc: "state c \<noteq> FAULT"
    and fc: "stop_called t \<Longrightarrow> stop_flag c"
    using Cons.prems(2) by (simp_all add: c_def stop_keeps stop_not_FAULT)
  show ?case
  proof (cases "stop_called t \<or> \<not> pf_le (Finite (now t - start_time)) (exposition_time ch)")
    case True
    then show ?thesis
      unfolding measure_loop.simps Let_def c_def [symmetric]
      using ec fc by auto
  next
    case False
    with Cons.prems(1) ec
    have "\<exists>t \<in> set ts. stop_called t \<or> \<not> pf_le (Finite (now t - start_time)) (exposition_time c)"
      by auto
    note ih = Cons.IH [OF this sc]
    show ?thesis
      unfolding measure_loop.simps Let_def c_def [symmetric]
      using ih by (auto split: sum.splits prod.splits)
  qed
qed

lemma measure_loop_state:
  assumes "measure_loop ts start_time ch h result result_raw cycles seen = Some (r, ch', h', seen')"
    and "state ch \<noteq> FAULT"
  shows "state ch' \<noteq> FAULT"
  using assms
proof (induction ts arbitrary: ch h result result_raw cycles seen)
  case Nil
  then show ?case by simp
next
  case (Cons t ts)
  define c where "c = (if stop_called t then snd (stop ch) else ch)"
  have sc: "state c \<noteq> FAULT"
    using Cons.prems(2) by (simp add: c_def stop_not_FAULT)
  note run = Cons.prems(1) [unfolded measure_loop.simps Let_def, folded c_def]
  show ?case
  proof (cases "pf_le (Finite (now t - start_time)) (exposition_time c) \<and> \<not> stop_flag c")
    case False
    with run sc show ?thesis
      by (auto split: if_splits)
  next
    case True
    show ?thesis
    proof (cases "int_of_float (pf_div (exposition_time c) MIN_EXPOSITION_TIME)")
      case (Inl e)
      with run True sc show ?thesis by auto
    next
      case (Inr hint)
      obtain r1 h1 where m: "proxy (host_measure h [address c, hint]) = (r1, h1)"
        by (cases "proxy (host_measure h [address c, hint])")
      show ?thesis
      proof (cases r1)
        case (Inl e)
        with m have "e = DevFailed" by (simp add: proxy_Inl)
        with run True Inr m Inl sc show ?thesis by auto
      next
        case (Inr iter)
        with run True \<open>int_of_float _ = Inr hint\<close> m Cons.IH [OF _ sc] show ?thesis
          by (auto split: if_splits)
      qed
    qed
  qed
qed

text \<open>Whatever happens on the bus, \<^verbatim>\<open>__measure\<close> never leaves the channel in FAULT.\<close>

lemma channel_measure_never_FAULT:
  assumes "channel_measure ticks ch h = Some (r, ch', h', seen)"
  shows "state ch' \<noteq> FAULT"
proof -
  from assms obtain t0 ts where ticks: "ticks = t0 # ts"
    by (cases ticks) (simp_all add: channel_measure_def)
  show ?thesis
  proof (cases r)
    case (Inr u)
    with assms show ?thesis
      by (auto elim!: channel_measure_Inr)
  next
    case (Inl e)
    with assms ticks
    have "\<exists>r1. measure_loop ts (now t0) (ch\<lparr>state := RUNNING\<rparr>) h 0 0 0 [] = Some (r1, ch', h', seen)"
      by (auto simp: channel_measure_def Let_def split: option.splits sum.splits)
    then show ?thesis
      by (auto dest: measure_loop_state)
  qed
qed

section \<open>Concrete runs\<close>

text \<open>Stepping lemmas for evaluating a run on a concrete script.\<close>

lemma query_Reply:
  assumes "port_script h = Reply answer # rest"
  shows "query h raw_command data_expected execution_time =
     ((if (length answer < 3 \<and> data_expected) \<or> (answer \<noteq> [ACK] \<and> \<not> data_expected) \<or> answer = []
       then Inr (- 1)
       else if data_expected then
         (case int_of_bytes (butlast (tl answer)) of None \<Rightarrow> Inl ValueError | Some n \<Rightarrow> Inr n)
       else Inr 0),
      h\<lparr>port_written := port_written h @ [raw_command],
        timeout := command_timeout h + execution_time, port_script := rest\<rparr>)"
  using assms
  by (simp add: query_def query_body_def port_write_def port_read_def Let_def
      split: option.splits)

lemma query_ReadError:
  assumes "port_script h = ReadError # rest"
  shows "query h raw_command data_expected execution_time =
     (Inl DevFailed,
      h\<lparr>port_written := port_written h @ [raw_command],
        timeout := command_timeout h + execution_time, port_script := rest,
        host_state := FAULT\<rparr>)"
  using assms
  by (simp add: query_def query_body_def port_write_def port_read_def Let_def)

lemma hint_example:
  "int_of_float (pf_div (Finite (1 / 100)) MIN_EXPOSITION_TIME) = Inr 10000"
  by (simp add: int_of_float_def pf_div_def MIN_EXPOSITION_TIME_def)

lemma host_measure_3:
  "host_measure h [3, hint]
     = query h '':READ3:CURR?\<newline>'' True (real_of_int hint * MIN_EXPOSITION_TIME)"
  by (simp add: host_measure_def MAX_CHANNELS_def str_int_def str_nat.simps digit_char_def LF_def)

lemma parse_examples:
  "int_of_bytes ''1'' = Some 1" "int_of_bytes ''2'' = Some 2"
  "int_of_bytes ''131072000'' = Some 131072000"
  by (simp_all add: int_of_bytes_def strip_def is_space_def digits_value_def is_digit_def
      digit_val_def)

lemma three_halves: "(3 / 2 :: real) \<notin> \<int>"
proof
  assume "(3 / 2 :: real) \<in> \<int>"
  then obtain n :: int where "(3 / 2 :: real) = of_int n"
    by (auto elim: Ints_cases)
  then have "(3 :: real) = of_int (2 * n)"
    by simp
  then have "(3 :: int) = 2 * n"
    by linarith
  then show False
    by presburger
qed

text \<open>
  Two runs of the example channel. In the first the bus returns the raw count 131072000
  five times, with one response that is too short in between, and then the time is up:
  the current is \<open>0.5e-9\<close> A and the raw current 131072000. In the second a client
  calls \<^verbatim>\<open>stop\<close> before the first cycle.
\<close>

theorem measure_averages_witness:
  "channel_measure
     [tick_at 0, tick_at (1 / 1000), tick_at (2 / 1000), tick_at (3 / 1000), tick_at (4 / 1000),
      tick_at (5 / 1000), tick_at (6 / 1000), tick_at 1]
     example_channel
     (example_host [Reply '':131072000\<newline>'', Reply '':131072000\<newline>'', Reply '':1'',
        Reply '':131072000\<newline>'', Reply '':131072000\<newline>'', Reply '':131072000\<newline>''])
   = Some (Inr (),
       example_channel\<lparr>current := Finite (5 / 10 ^ 10), raw_current := PyFloat 131072000\<rparr>,
       \<lparr>port_written = replicate 6 '':READ3:CURR?\<newline>'', timeout = 1 / 100,
        command_timeout = 0, lock_count = 0, host_state = ON, port_script = []\<rparr>,
       [131072000, 131072000, - 1, 131072000, 131072000, 131072000])
   \<and> channel_measure [tick_at 0, \<lparr>now = 1 / 1000, stop_called = True\<rparr>] example_channel
       (example_host [])
     = Some (Inr (), example_channel\<lparr>current := NaN, raw_current := PyInt (- 1)\<rparr>,
         example_host [], [])"
proof -
  let ?ticks = "[tick_at 0, tick_at (1 / 1000), tick_at (2 / 1000), tick_at (3 / 1000),
      tick_at (4 / 1000), tick_at (5 / 1000), tick_at (6 / 1000), tick_at 1]"
  let ?h = "example_host [Reply '':131072000\<newline>'', Reply '':131072000\<newline>'', Reply '':1'',
        Reply '':131072000\<newline>'', Reply '':131072000\<newline>'', Reply '':131072000\<newline>'']"
  let ?seen = "[131072000, 131072000, - 1, 131072000, 131072000, 131072000] :: int list"
  obtain r ch' h' seen where run: "channel_measure ?ticks example_channel ?h = Some (r, ch', h', seen)"
    and r: "r = Inr ()" and seen: "seen = ?seen"
    and h': "h' = \<lparr>port_written = replicate 6 '':READ3:CURR?\<newline>'', timeout = 1 / 100,
        command_timeout = 0, lock_count = 0, host_state = ON, port_script = []\<rparr>"
    and rest: "address ch' = 3" "high_voltage ch' = 0" "range_val ch' = RANGE_1" "offset ch' = 0"
      "exposition_time ch' = Finite (1 / 100)"
    by (simp add: channel_measure_def tick_at_def example_channel_def example_host_def Let_def
        hint_example host_measure_3 query_Reply proxy_def parse_examples)
      (simp add: MIN_EXPOSITION_TIME_def numeral_eq_Suc)
  have s: "samples seen = replicate 5 131072000"
    by (simp add: seen samples_def numeral_eq_Suc)
  from measure_averages [OF run [unfolded r]] s
  have "current ch' = Finite (5 / 10 ^ 10)" and "raw_current ch' = PyFloat 131072000"
    and "\<not> stop_flag ch'" and "state ch' = ON"
    by (simp_all add: example_channel_def to_amperes_def max_RangeEnum_def numeral_eq_Suc)
  with rest have "ch' = example_channel\<lparr>current := Finite (5 / 10 ^ 10), raw_current := PyFloat 131072000\<rparr>"
    by (simp add: example_channel_def)
  with run r seen h' have 1: "channel_measure ?ticks example_channel ?h
      = Some (Inr (),
       example_channel\<lparr>current := Finite (5 / 10 ^ 10), raw_current := PyFloat 131072000\<rparr>,
       \<lparr>port_written = replicate 6 '':READ3:CURR?\<newline>'', timeout = 1 / 100,
        command_timeout = 0, lock_count = 0, host_state = ON, port_script = []\<rparr>, ?seen)"
    by simp
  have 2: "channel_measure [tick_at 0, \<lparr>now = 1 / 1000, stop_called = True\<rparr>] example_channel
       (example_host [])
     = Some (Inr (), example_channel\<lparr>current := NaN, raw_current := PyInt (- 1)\<rparr>,
         example_host [], [])"
    by (simp add: channel_measure_def tick_at_def example_channel_def stop_def)
  from 1 2 show ?thesis by blast
qed

text \<open>
  C7. The claim: a serial failure during the loop's bus call sets the owning channel's
  state to FAULT. The failure never reaches the loop as \<^verbatim>\<open>SerialException\<close>:
  \<^verbatim>\<open>query\<close> catches it, puts the host into FAULT and raises \<^verbatim>\<open>DevFailed\<close>, which
  the handler in \<^verbatim>\<open>__measure\<close> does not catch. The loop is left at once, without a
  retry, but the channel stays in RUNNING.
\<close>

theorem serial_failure_leaves_channel_RUNNING:
  "channel_measure [tick_at 0, tick_at (1 / 1000), tick_at (2 / 1000)] example_channel
     (example_host [ReadError])
   = Some (Inl DevFailed, example_channel\<lparr>state := RUNNING\<rparr>,
           \<lparr>port_written = ['':READ3:CURR?\<newline>''], timeout = 1 / 100, command_timeout = 0,
            lock_count = 0, host_state = FAULT, port_script = []\<rparr>, [])
   \<and> state (example_channel\<lparr>state := RUNNING\<rparr>) \<noteq> FAULT"
  by (simp add: channel_measure_def tick_at_def example_channel_def example_host_def Let_def
      hint_example host_measure_3 query_ReadError proxy_def)
    (simp add: MIN_EXPOSITION_TIME_def)

text \<open>
  C9. The claim: \<open>raw_current\<close> always holds an integer. After a measurement with the
  two raw counts 1 and 2 it holds their quotient by the number of cycles, the float
  \<open>1.5\<close>.
\<close>

theorem raw_current_not_an_integer:
  "channel_measure [tick_at 0, tick_at (1 / 1000), tick_at (2 / 1000), tick_at 1] example_channel
     (example_host [Reply '':1\<newline>'', Reply '':2\<newline>''])
   = Some (Inr (),
       example_channel\<lparr>current := Finite (3 / 524288000000000000), raw_current := PyFloat (3 / 2)\<rparr>,
       \<lparr>port_written = ['':READ3:CURR?\<newline>'', '':READ3:CURR?\<newline>''], timeout = 1 / 100,
        command_timeout = 0, lock_count = 0, host_state = ON, port_script = []\<rparr>, [1, 2])
   \<and> (3 / 2 :: real) \<notin> \<int>"
  by (simp add: channel_measure_def tick_at_def example_channel_def example_host_def Let_def
      hint_example host_measure_3 query_Reply proxy_def parse_examples three_halves)
    (simp add: MIN_EXPOSITION_TIME_def to_amperes_def max_RangeEnum_def)

section \<open>Threads on the bus\<close>

lemma port_write_lock_count: "lock_count (snd (port_write h c)) = lock_count h"
  by (simp add: port_write_def split: list.splits port_behaviour.splits)

lemma port_read_lock_count: "lock_count (snd (port_read h)) = lock_count h"
  by (simp add: port_read_def split: list.splits port_behaviour.splits)

lemma pending_append: "pending p (es @ fs) = pending (pending p es) fs"
  by (induction p es rule: pending.induct) simp_all

lemma serial_from_append:
  "serial_from p (es @ fs) = (serial_from p es \<and> serial_from (pending p es) fs)"
  by (induction p es rule: serial_from.induct) auto

lemma bus_inv_start: "lock_count h = 0 \<Longrightarrow> bus_inv (start_bus h)"
  by (simp add: bus_inv_def start_bus_def serial_def)

lemma bus_invI:
  assumes "\<And>u. in_exchange (pcs s u) = (lock_owner s = Some u)"
    and "lock_count (shared s) = (if lock_owner s = None then 0 else 1)"
    and "serial (wire s)"
    and "\<And>u. pcs s u = Written \<Longrightarrow> pending None (wire s) = Some u"
  shows "bus_inv s"
  using assms unfolding bus_inv_def by blast

lemma bus_invD:
  assumes "bus_inv s"
  shows "in_exchange (pcs s u) = (lock_owner s = Some u)"
    and "lock_count (shared s) = (if lock_owner s = None then 0 else 1)"
    and "serial (wire s)"
    and "pcs s u = Written \<Longrightarrow> pending None (wire s) = Some u"
  using assms unfolding bus_inv_def by blast+

lemma bus_inv_owner:
  assumes "bus_inv s" "in_exchange (pcs s t)"
  shows "lock_owner s = Some t" and "u \<noteq> t \<Longrightarrow> \<not> in_exchange (pcs s u)"
    and "u \<noteq> t \<Longrightarrow> pcs s u \<noteq> Written" and "lock_count (shared s) = 1"
proof -
  note ex = bus_invD(1) [OF assms(1)]
  from ex [of t] assms(2) show own: "lock_owner s = Some t"
    by simp
  with ex [of u] show ne: "u \<noteq> t \<Longrightarrow> \<not> in_exchange (pcs s u)"
    by simp
  then show "u \<noteq> t \<Longrightarrow> pcs s u \<noteq> Written"
    by auto
  from bus_invD(2) [OF assms(1)] own show "lock_count (shared s) = 1"
    by simp
qed

lemma bus_inv_acquire:
  assumes "bus_inv s" "pcs s t = Idle" "lock_owner s = None"
  shows "bus_inv (s\<lparr>shared := (shared s)\<lparr>lock_count := lock_count (shared s) + 1\<rparr>,
                    lock_owner := Some t, pcs := (pcs s)(t := Locked)\<rparr>)"
    (is "bus_inv ?s'")
proof (rule bus_invI)
  fix u
  from bus_invD(1) [OF assms(1), of u] assms(3)
  have "\<not> in_exchange (pcs s u)" by simp
  then show "in_exchange (pcs ?s' u) = (lock_owner ?s' = Some u)"
    by auto
next
  from bus_invD(2) [OF assms(1)] assms(3)
  show "lock_count (shared ?s') = (if lock_owner ?s' = None then 0 else 1)"
    by simp
next
  from bus_invD(3) [OF assms(1)] show "serial (wire ?s')"
    by simp
next
  fix u
  assume "pcs ?s' u = Written"
  then have "pcs s u = Written"
    by (simp split: if_splits)
  from bus_invD(4) [OF assms(1) this] show "pending None (wire ?s') = Some u"
    by simp
qed

text \<open>A step of the thread that owns the lock, inside its exchange.\<close>

lemma bus_inv_inside:
  assumes "bus_inv s" "in_exchange (pcs s t)" "in_exchange p'"
    and "lock_count h = lock_count (shared s)"
    and "serial w'"
    and "p' = Written \<Longrightarrow> pending None w' = Some t"
  shows "bus_inv (s\<lparr>shared := h, pcs := (pcs s)(t := p'), wire := w'\<rparr>)"
    (is "bus_inv ?s'")
proof (rule bus_invI)
  note o = bus_inv_owner [OF assms(1,2)]
  fix u
  show "in_exchange (pcs ?s' u) = (lock_owner ?s' = Some u)"
  proof (cases "u = t")
    case True
    with assms(3) o(1) show ?thesis by simp
  next
    case False
    with o(1) o(2) [OF False] show ?thesis by simp
  qed
next
  note o = bus_inv_owner [OF assms(1,2)]
  from o(1) o(4) assms(4)
  show "lock_count (shared ?s') = (if lock_owner ?s' = None then 0 else 1)"
    by simp
next
  from assms(5) show "serial (wire ?s')"
    by simp
next
  note o = bus_inv_owner [OF assms(1,2)]
  fix u
  assume w: "pcs ?s' u = Written"
  show "pending None (wire ?s') = Some u"
  proof (cases "u = t")
    case True
    with w assms(6) show ?thesis by simp
  next
    case False
    with w o(3) [OF False] show ?thesis by simp
  qed
qed

text \<open>The \<^verbatim>\<open>finally\<close> clause: the owner of the lock leaves its exchange.\<close>

lemma bus_inv_release:
  assumes "bus_inv s" "in_exchange (pcs s t)"
    and "lock_count h = lock_count (shared s)"
  shows "bus_inv (release (s\<lparr>shared := h, pcs := (pcs s)(t := Done r)\<rparr>))"
    (is "bus_inv ?s'")
proof -
  note o = bus_inv_owner [OF assms(1,2)]
  from o(4) assms(3) have s': "?s' = s\<lparr>shared := h\<lparr>lock_count := 0\<rparr>, pcs := (pcs s)(t := Done r),
      lock_owner := None\<rparr>"
    by (simp add: release_def)
  show ?thesis
    unfolding s'
  proof (rule bus_invI)
    fix u
    show "in_exchange (pcs (s\<lparr>shared := h\<lparr>lock_count := 0\<rparr>, pcs := (pcs s)(t := Done r),
        lock_owner := None\<rparr>) u)
      = (lock_owner (s\<lparr>shared := h\<lparr>lock_count := 0\<rparr>, pcs := (pcs s)(t := Done r),
        lock_owner := None\<rparr>) = Some u)"
    proof (cases "u = t")
      case True
      then show ?thesis by simp
    next
      case False
      with o(2) [OF False] show ?thesis by simp
    qed
  next
    show "lock_count (shared (s\<lparr>shared := h\<lparr>lock_count := 0\<rparr>, pcs := (pcs s)(t := Done r),
        lock_owner := None\<rparr>))
      = (if lock_owner (s\<lparr>shared := h\<lparr>lock_count := 0\<rparr>, pcs := (pcs s)(t := Done r),
        lock_owner := None\<rparr>) = None then 0 else 1)"
      by simp
  next
    from bus_invD(3) [OF assms(1)]
    show "serial (wire (s\<lparr>shared := h\<lparr>lock_count := 0\<rparr>, pcs := (pcs s)(t := Done r),
        lock_owner := None\<rparr>))"
      by simp
  next
    fix u
    assume w: "pcs (s\<lparr>shared := h\<lparr>lock_count := 0\<rparr>, pcs := (pcs s)(t := Done r),
        lock_owner := None\<rparr>) u = Written"
    then have "pcs s u = Written"
      by (simp split: if_splits)
    from bus_invD(4) [OF assms(1) this]
    show "pending None (wire (s\<lparr>shared := h\<lparr>lock_count := 0\<rparr>, pcs := (pcs s)(t := Done r),
        lock_owner := None\<rparr>)) = Some u"
      by simp
  qed
qed

text \<open>A thread outside its exchange goes back to its caller.\<close>

lemma bus_inv_idle:
  assumes "bus_inv s" "\<not> in_exchange (pcs s t)"
  shows "bus_inv (s\<lparr>pcs := (pcs s)(t := Idle)\<rparr>)"
    (is "bus_inv ?s'")
proof (rule bus_invI)
  fix u
  from bus_invD(1) [OF assms(1), of u] bus_invD(1) [OF assms(1), of t] assms(2)
  show "in_exchange (pcs ?s' u) = (lock_owner ?s' = Some u)"
    by (cases "u = t") simp_all
next
  from bus_invD(2) [OF assms(1)]
  show "lock_count (shared ?s') = (if lock_owner ?s' = None then 0 else 1)"
    by simp
next
  from bus_invD(3) [OF assms(1)] show "serial (wire ?s')"
    by simp
next
  fix u
  assume "pcs ?s' u = Written"
  then have "pcs s u = Written"
    by (simp split: if_splits)
  from bus_invD(4) [OF assms(1) this] show "pending None (wire ?s') = Some u"
    by simp
qed


lemma bus_inv_step:
  assumes "bus_inv s"
  shows "bus_inv (thread_step calls t s)"
proof -
  obtain c d e where call: "calls t = (c, d, e)"
    by (cases "calls t") auto
  show ?thesis
  proof (cases "pcs s t")
    case Idle
    from bus_invD(1) [OF assms, of t] Idle have n: "lock_owner s \<noteq> Some t"
      by simp
    show ?thesis
    proof (cases "lock_owner s = None")
      case True
      with call Idle have "thread_step calls t s
          = s\<lparr>shared := (shared s)\<lparr>lock_count := lock_count (shared s) + 1\<rparr>,
              lock_owner := Some t, pcs := (pcs s)(t := Locked)\<rparr>"
        by (simp add: thread_step_def)
      with bus_inv_acquire [OF assms Idle True] show ?thesis
        by simp
    next
      case False
      with call Idle n have "thread_step calls t s = s"
        by (auto simp: thread_step_def)
      with assms show ?thesis
        by simp
    qed
  next
    case Locked
    then have x: "in_exchange (pcs s t)" by simp
    obtain r h where w: "port_write (shared s) c = (r, h)"
      by (cases "port_write (shared s) c")
    with port_write_lock_count [of "shared s" c] have l: "lock_count h = lock_count (shared s)"
      by simp
    show ?thesis
    proof (cases r)
      case (Inl ex)
      with call Locked w have "thread_step calls t s
          = s\<lparr>shared := h, pcs := (pcs s)(t := Failed), wire := wire s\<rparr>"
        by (simp add: thread_step_def)
      moreover have "bus_inv (s\<lparr>shared := h, pcs := (pcs s)(t := Failed), wire := wire s\<rparr>)"
        by (rule bus_inv_inside [OF assms x _ l]) (simp_all add: bus_invD(3) [OF assms])
      ultimately show ?thesis by simp
    next
      case (Inr u)
      with call Locked w have "thread_step calls t s
          = s\<lparr>shared := h, pcs := (pcs s)(t := Written), wire := wire s @ [Wr t c]\<rparr>"
        by (simp add: thread_step_def)
      moreover from bus_invD(3) [OF assms]
      have "bus_inv (s\<lparr>shared := h, pcs := (pcs s)(t := Written), wire := wire s @ [Wr t c]\<rparr>)"
        by (intro bus_inv_inside [OF assms x _ l])
          (simp_all add: serial_def serial_from_append pending_append)
      ultimately show ?thesis by simp
    qed
  next
    case Written
    then have x: "in_exchange (pcs s t)" by simp
    from bus_invD(4) [OF assms Written] have p: "pending None (wire s) = Some t" .
    let ?h = "(shared s)\<lparr>timeout := command_timeout (shared s) + e\<rparr>"
    obtain r h where rd: "port_read ?h = (r, h)"
      by (cases "port_read ?h")
    with port_read_lock_count [of ?h] have l: "lock_count h = lock_count (shared s)"
      by simp
    show ?thesis
    proof (cases r)
      case (Inl ex)
      with call Written rd have "thread_step calls t s
          = s\<lparr>shared := h, pcs := (pcs s)(t := Failed), wire := wire s\<rparr>"
        by (simp add: thread_step_def)
      moreover have "bus_inv (s\<lparr>shared := h, pcs := (pcs s)(t := Failed), wire := wire s\<rparr>)"
        by (rule bus_inv_inside [OF assms x _ l]) (simp_all add: bus_invD(3) [OF assms])
      ultimately show ?thesis by simp
    next
      case (Inr answer)
      with call Written rd have "thread_step calls t s
          = s\<lparr>shared := h, pcs := (pcs s)(t := Answered answer), wire := wire s @ [Rd t answer]\<rparr>"
        by (simp add: thread_step_def)
      moreover from bus_invD(3) [OF assms] p
      have "bus_inv (s\<lparr>shared := h, pcs := (pcs s)(t := Answered answer),
          wire := wire s @ [Rd t answer]\<rparr>)"
        by (intro bus_inv_inside [OF assms x _ l])
          (simp_all add: serial_def serial_from_append pending_append)
      ultimately show ?thesis by simp
    qed
  next
    case (Answered answer)
    then have x: "in_exchange (pcs s t)" by simp
    from call Answered obtain r where "thread_step calls t s
        = release (s\<lparr>shared := shared s, pcs := (pcs s)(t := Done r)\<rparr>)"
      by (simp add: thread_step_def)
    with bus_inv_release [OF assms x refl, of r] show ?thesis
      by simp
  next
    case Failed
    then have x: "in_exchange (pcs s t)" by simp
    from call Failed have "thread_step calls t s
        = release (s\<lparr>shared := (shared s)\<lparr>host_state := FAULT\<rparr>,
            pcs := (pcs s)(t := Done (Inl DevFailed))\<rparr>)"
      by (simp add: thread_step_def)
    moreover have "bus_inv (release (s\<lparr>shared := (shared s)\<lparr>host_state := FAULT\<rparr>,
            pcs := (pcs s)(t := Done (Inl DevFailed))\<rparr>))"
      by (rule bus_inv_release [OF assms x]) simp
    ultimately show ?thesis by simp
  next
    case (Done r)
    then have x: "\<not> in_exchange (pcs s t)" by simp
    from call Done have "thread_step calls t s = s\<lparr>pcs := (pcs s)(t := Idle)\<rparr>"
      by (simp add: thread_step_def)
    with bus_inv_idle [OF assms x] show ?thesis
      by simp
  qed
qed

lemma bus_inv_run: "bus_inv s \<Longrightarrow> bus_inv (run calls schedule s)"
  by (induction schedule arbitrary: s) (simp_all add: bus_inv_step)


text \<open>Bytes move over the port only in steps of the thread that holds the lock.\<close>

lemma wire_changes_under_lock:
  assumes "bus_inv s" "wire (thread_step calls t s) \<noteq> wire s"
  shows "lock_owner s = Some t \<and> lock_owner (thread_step calls t s) = Some t"
proof -
  obtain c d e where call: "calls t = (c, d, e)"
    by (cases "calls t") auto
  from assms(2) call have "pcs s t = Locked \<or> pcs s t = Written"
    by (cases "pcs s t") (auto simp: thread_step_def release_def Let_def split: if_splits)
  then have x: "in_exchange (pcs s t)"
    by auto
  from bus_inv_owner(1) [OF assms(1) x] have o: "lock_owner s = Some t" .
  from \<open>pcs s t = Locked \<or> pcs s t = Written\<close> call
  have "lock_owner (thread_step calls t s) = lock_owner s"
    by (auto simp: thread_step_def split: prod.splits sum.splits)
  with o show ?thesis
    by simp
qed

lemma release_frees:
  assumes "lock_count (shared s) = 1"
  shows "lock_owner (release s) = None" and "pcs (release s) = pcs s"
  using assms by (simp_all add: release_def)

lemma finally_step:
  assumes "bus_inv s" "pcs s t = Answered a \<or> pcs s t = Failed"
  shows "(\<exists>r. pcs (thread_step calls t s) t = Done r) \<and> lock_owner (thread_step calls t s) = None"
proof -
  obtain c d e where call: "calls t = (c, d, e)"
    by (cases "calls t") auto
  from assms(2) have x: "in_exchange (pcs s t)"
    by auto
  note l = bus_inv_owner(4) [OF assms(1) x]
  from assms(2) show ?thesis
  proof
    assume "pcs s t = Answered a"
    with call l show ?thesis
      by (simp add: thread_step_def release_def)
  next
    assume "pcs s t = Failed"
    with call l show ?thesis
      by (simp add: thread_step_def release_def)
  qed
qed

lemma read_step:
  assumes "pcs s t = Written"
  shows "(\<exists>a. pcs (thread_step calls t s) t = Answered a) \<or> pcs (thread_step calls t s) t = Failed"
proof -
  obtain c d e where call: "calls t = (c, d, e)"
    by (cases "calls t") auto
  from assms call show ?thesis
    by (simp add: thread_step_def split: prod.splits sum.splits)
qed

lemma write_step:
  assumes "pcs s t = Locked"
  shows "pcs (thread_step calls t s) t = Written \<or> pcs (thread_step calls t s) t = Failed"
proof -
  obtain c d e where call: "calls t = (c, d, e)"
    by (cases "calls t") auto
  from assms call show ?thesis
    by (simp add: thread_step_def split: prod.splits sum.splits)
qed

text \<open>
  Whatever the port does, the thread in its exchange is through the \<^verbatim>\<open>finally\<close> clause
  after at most three steps of its own, and the lock is free.
\<close>

lemma exchange_ends_with_release:
  assumes "bus_inv s" "in_exchange (pcs s t)"
  shows "\<exists>k \<le> 3. (\<exists>r. pcs (run calls (replicate k t) s) t = Done r)
           \<and> lock_owner (run calls (replicate k t) s) = None"
proof -
  have r1: "replicate 1 t = [t]" and r2: "replicate 2 t = [t, t]" and r3: "replicate 3 t = [t, t, t]"
    by (simp_all add: numeral_eq_Suc)
  let ?s1 = "thread_step calls t s"
  let ?s2 = "thread_step calls t ?s1"
  let ?s3 = "thread_step calls t ?s2"
  have i1: "bus_inv ?s1" and i2: "bus_inv ?s2"
    using assms(1) by (simp_all add: bus_inv_step)
  have fin: "\<And>s'. bus_inv s' \<Longrightarrow> (\<exists>a. pcs s' t = Answered a) \<or> pcs s' t = Failed \<Longrightarrow>
      (\<exists>r. pcs (thread_step calls t s') t = Done r) \<and> lock_owner (thread_step calls t s') = None"
    using finally_step by blast
  have from_written: "\<And>s'. bus_inv s' \<Longrightarrow> pcs s' t = Written \<Longrightarrow>
      (\<exists>r. pcs (thread_step calls t (thread_step calls t s')) t = Done r)
      \<and> lock_owner (thread_step calls t (thread_step calls t s')) = None"
    using read_step fin bus_inv_step by blast
  consider "pcs s t = Locked" | "pcs s t = Written" | "(\<exists>a. pcs s t = Answered a) \<or> pcs s t = Failed"
    using assms(2) by (cases "pcs s t") auto
  then show ?thesis
  proof cases
    case 1
    from write_step [OF 1, of calls] show ?thesis
    proof
      assume "pcs ?s1 t = Written"
      from from_written [OF i1 this] have "(\<exists>r. pcs (run calls (replicate 3 t) s) t = Done r)
           \<and> lock_owner (run calls (replicate 3 t) s) = None"
        unfolding r3 by simp
      then show ?thesis by (intro exI [of _ 3]) simp
    next
      assume "pcs ?s1 t = Failed"
      with fin [OF i1] have "(\<exists>r. pcs (run calls (replicate 2 t) s) t = Done r)
           \<and> lock_owner (run calls (replicate 2 t) s) = None"
        unfolding r2 by simp
      then show ?thesis by (intro exI [of _ 2]) simp
    qed
  next
    case 2
    from from_written [OF assms(1) 2] have "(\<exists>r. pcs (run calls (replicate 2 t) s) t = Done r)
           \<and> lock_owner (run calls (replicate 2 t) s) = None"
      unfolding r2 by simp
    then show ?thesis by (intro exI [of _ 2]) simp
  next
    case 3
    from fin [OF assms(1) 3] have "(\<exists>r. pcs (run calls (replicate 1 t) s) t = Done r)
           \<and> lock_owner (run calls (replicate 1 t) s) = None"
      unfolding r1 by simp
    then show ?thesis by (intro exI [of _ 1]) simp
  qed
qed

text \<open>
  C4. In every state that the threads can reach from a host whose lock is free, under
  any schedule: at most one thread is in its exchange, and it is the owner of the lock,
  from \<^verbatim>\<open>acquire\<close> until the \<^verbatim>\<open>finally\<close> clause; bytes are written to and read from
  the port only in steps of the owner, which owns the lock before and after the step;
  a thread that has left \<^verbatim>\<open>query\<close>, with whatever result (a value, the sentinel,
  \<^verbatim>\<open>DevFailed\<close> or \<^verbatim>\<open>ValueError\<close>), does not own the lock, and the lock is free when
  no thread is in its exchange; the thread in its exchange is through the \<^verbatim>\<open>finally\<close>
  clause, with the lock free again, after at most three steps of its own, whatever the
  port does; and on the wire every read follows directly on the write of the same
  thread.
\<close>

theorem exchanges_are_exclusive:
  assumes "lock_count h = 0"
  shows "(\<forall>t u. in_exchange (pcs (run calls schedule (start_bus h)) t)
              \<and> in_exchange (pcs (run calls schedule (start_bus h)) u) \<longrightarrow> t = u)
       \<and> (\<forall>t. in_exchange (pcs (run calls schedule (start_bus h)) t)
              = (lock_owner (run calls schedule (start_bus h)) = Some t))
       \<and> (\<forall>t. wire (thread_step calls t (run calls schedule (start_bus h)))
                \<noteq> wire (run calls schedule (start_bus h))
              \<longrightarrow> lock_owner (run calls schedule (start_bus h)) = Some t
                \<and> lock_owner (thread_step calls t (run calls schedule (start_bus h))) = Some t)
       \<and> (\<forall>t r. pcs (run calls schedule (start_bus h)) t = Done r
              \<longrightarrow> lock_owner (run calls schedule (start_bus h)) \<noteq> Some t)
       \<and> ((\<forall>t. \<not> in_exchange (pcs (run calls schedule (start_bus h)) t))
              \<longrightarrow> lock_owner (run calls schedule (start_bus h)) = None
                \<and> lock_count (shared (run calls schedule (start_bus h))) = 0)
       \<and> (\<forall>t. in_exchange (pcs (run calls schedule (start_bus h)) t)
              \<longrightarrow> (\<exists>k \<le> 3.
                    (\<exists>r. pcs (run calls (replicate k t) (run calls schedule (start_bus h))) t = Done r)
                    \<and> lock_owner (run calls (replicate k t) (run calls schedule (start_bus h))) = None))
       \<and> serial (wire (run calls schedule (start_bus h)))"
proof -
  define s where "s = run calls schedule (start_bus h)"
  from assms have inv: "bus_inv s"
    unfolding s_def by (intro bus_inv_run bus_inv_start)
  note ex = bus_invD(1) [OF inv]
  have 1: "\<forall>t u. in_exchange (pcs s t) \<and> in_exchange (pcs s u) \<longrightarrow> t = u"
    using ex by auto
  have 2: "\<forall>t. in_exchange (pcs s t) = (lock_owner s = Some t)"
    using ex by simp
  have 3: "\<forall>t. wire (thread_step calls t s) \<noteq> wire s
      \<longrightarrow> lock_owner s = Some t \<and> lock_owner (thread_step calls t s) = Some t"
    using wire_changes_under_lock [OF inv] by blast
  have 4: "\<forall>t r. pcs s t = Done r \<longrightarrow> lock_owner s \<noteq> Some t"
  proof (intro allI impI)
    fix t r
    assume "pcs s t = Done r"
    with ex [of t] show "lock_owner s \<noteq> Some t"
      by simp
  qed
  have 5: "(\<forall>t. \<not> in_exchange (pcs s t)) \<longrightarrow> lock_owner s = None \<and> lock_count (shared s) = 0"
  proof
    assume n: "\<forall>t. \<not> in_exchange (pcs s t)"
    have "lock_owner s = None"
    proof (cases "lock_owner s")
      case None
      then show ?thesis .
    next
      case (Some t)
      with ex [of t] n show ?thesis
        by simp
    qed
    with bus_invD(2) [OF inv] show "lock_owner s = None \<and> lock_count (shared s) = 0"
      by simp
  qed
  have 6: "\<forall>t. in_exchange (pcs s t)
      \<longrightarrow> (\<exists>k \<le> 3. (\<exists>r. pcs (run calls (replicate k t) s) t = Done r)
            \<and> lock_owner (run calls (replicate k t) s) = None)"
    using exchange_ends_with_release [OF inv] by blast
  from 1 2 3 4 5 6 bus_invD(3) [OF inv] show ?thesis
    unfolding s_def by blast
qed


text \<open>
  A thread that runs through its steps with no other thread in between does what
  \<^verbatim>\<open>query\<close> does: the same result and the same host afterwards.
\<close>

lemma alone_is_query:
  assumes "calls t = (c, d, e)" "pcs s t = Idle" "lock_owner s = None"
  shows "\<exists>k \<le> 4. pcs (run calls (replicate k t) s) t = Done (fst (query (shared s) c d e))
                \<and> shared (run calls (replicate k t) s) = snd (query (shared s) c d e)"
proof -
  let ?h0 = "(shared s)\<lparr>lock_count := lock_count (shared s) + 1\<rparr>"
  let ?s1 = "s\<lparr>shared := ?h0, lock_owner := Some t, pcs := (pcs s)(t := Locked)\<rparr>"
  from assms have s1: "thread_step calls t s = ?s1"
    by (simp add: thread_step_def)
  obtain r h1 where w: "port_write ?h0 c = (r, h1)"
    by (cases "port_write ?h0 c")
  show ?thesis
  proof (cases r)
    case (Inl ex)
    with w have ex: "ex = SerialException"
      by (auto simp: port_write_def split: list.splits port_behaviour.splits)
    have r3: "replicate 3 t = [t, t, t]"
      by (simp add: numeral_eq_Suc)
    from assms w Inl ex
    have "pcs (run calls (replicate 3 t) s) t = Done (fst (query (shared s) c d e))
        \<and> shared (run calls (replicate 3 t) s) = snd (query (shared s) c d e)"
      unfolding r3
      by (simp add: s1 thread_step_def release_def query_def query_body_def Let_def)
    then show ?thesis
      by (intro exI [of _ 3]) simp
  next
    case (Inr u)
    let ?h2 = "h1\<lparr>timeout := command_timeout h1 + e\<rparr>"
    obtain r2 h3 where rd: "port_read ?h2 = (r2, h3)"
      by (cases "port_read ?h2")
    have r4: "replicate 4 t = [t, t, t, t]"
      by (simp add: numeral_eq_Suc)
    have "pcs (run calls (replicate 4 t) s) t = Done (fst (query (shared s) c d e))
        \<and> shared (run calls (replicate 4 t) s) = snd (query (shared s) c d e)"
    proof (cases r2)
      case (Inl ex)
      with rd have ex: "ex = SerialException"
        by (auto simp: port_read_def split: list.splits port_behaviour.splits)
      from assms w \<open>r = Inr u\<close> rd Inl ex show ?thesis
        unfolding r4
        by (simp add: s1 thread_step_def release_def query_def query_body_def Let_def)
    next
      case (Inr answer)
      from assms w \<open>r = Inr u\<close> rd Inr show ?thesis
        unfolding r4
        by (simp add: s1 thread_step_def release_def query_def query_body_def Let_def
            split: option.splits)
    qed
    then show ?thesis
      by (intro exI [of _ 4]) simp
  qed
qed


lemma parse_7_9: "int_of_bytes ''7'' = Some 7" "int_of_bytes ''9'' = Some 9"
  by (simp_all add: int_of_bytes_def strip_def is_space_def digits_value_def is_digit_def
      digit_val_def)

lemma example_schedule_run:
  "run example_calls [0, 1, 0, 1, 0, 1, 0, 1, 1, 1, 1]
     (start_bus (example_host [Reply '':7\<newline>'', Reply '':9\<newline>'']))
   = \<lparr>shared = \<lparr>port_written = ['':READ3:CURR?\<newline>'', '':READ5:CURR?\<newline>''],
          timeout = 1 / 100, command_timeout = 0, lock_count = 0, host_state = ON,
          port_script = []\<rparr>,
      lock_owner = None,
      pcs = (\<lambda>t. Idle)(0 := Done (Inr 7), 1 := Done (Inr 9)),
      wire = [Wr 0 '':READ3:CURR?\<newline>'', Rd 0 '':7\<newline>'',
              Wr 1 '':READ5:CURR?\<newline>'', Rd 1 '':9\<newline>'']\<rparr>"
  by (simp add: start_bus_def example_host_def example_calls_def thread_step_def release_def
      port_write_def port_read_def Let_def parse_7_9 fun_upd_twist)


lemma example_schedule_blocked:
  "run example_calls [0, 1, 0, 1]
     (start_bus (example_host [Reply '':7\<newline>'', Reply '':9\<newline>'']))
   = \<lparr>shared = \<lparr>port_written = ['':READ3:CURR?\<newline>''],
          timeout = 0, command_timeout = 0, lock_count = 1, host_state = ON,
          port_script = [Reply '':7\<newline>'', Reply '':9\<newline>'']\<rparr>,
      lock_owner = Some 0,
      pcs = (\<lambda>t. Idle)(0 := Written),
      wire = [Wr 0 '':READ3:CURR?\<newline>'']\<rparr>"
  by (simp add: start_bus_def example_host_def example_calls_def thread_step_def release_def
      port_write_def port_read_def Let_def)

text \<open>
  Two threads on the example host. Thread 1 asks for the lock while thread 0 is in its
  exchange and has to wait; its command goes out after the answer to thread 0 has
  come in.
\<close>

theorem exchanges_are_exclusive_witness:
  "lock_count (example_host [Reply '':7\<newline>'', Reply '':9\<newline>'']) = 0
   \<and> pcs (run example_calls [0, 1, 0, 1]
        (start_bus (example_host [Reply '':7\<newline>'', Reply '':9\<newline>'']))) 0 = Written
   \<and> pcs (run example_calls [0, 1, 0, 1]
        (start_bus (example_host [Reply '':7\<newline>'', Reply '':9\<newline>'']))) 1 = Idle
   \<and> lock_owner (run example_calls [0, 1, 0, 1]
        (start_bus (example_host [Reply '':7\<newline>'', Reply '':9\<newline>'']))) = Some 0
   \<and> wire (run example_calls [0, 1, 0, 1, 0, 1, 0, 1, 1, 1, 1]
        (start_bus (example_host [Reply '':7\<newline>'', Reply '':9\<newline>''])))
     = [Wr 0 '':READ3:CURR?\<newline>'', Rd 0 '':7\<newline>'',
        Wr 1 '':READ5:CURR?\<newline>'', Rd 1 '':9\<newline>'']
   \<and> serial [Wr 0 '':READ3:CURR?\<newline>'', Rd 0 '':7\<newline>'',
        Wr 1 '':READ5:CURR?\<newline>'', Rd 1 '':9\<newline>'']
   \<and> lock_owner (run example_calls [0, 1, 0, 1, 0, 1, 0, 1, 1, 1, 1]
        (start_bus (example_host [Reply '':7\<newline>'', Reply '':9\<newline>'']))) = None"
proof -
  let ?h = "example_host [Reply '':7\<newline>'', Reply '':9\<newline>'']"
  have l: "lock_count ?h = 0"
    by (simp add: example_host_def)
  note mid = exchanges_are_exclusive [OF l, of example_calls "[0, 1, 0, 1]"]
  note fin = exchanges_are_exclusive [OF l, of example_calls "[0, 1, 0, 1, 0, 1, 0, 1, 1, 1, 1]"]
  have p0: "pcs (run example_calls [0, 1, 0, 1] (start_bus ?h)) 0 = Written"
    and p1: "pcs (run example_calls [0, 1, 0, 1] (start_bus ?h)) 1 = Idle"
    unfolding example_schedule_blocked by simp_all
  from mid have "in_exchange (pcs (run example_calls [0, 1, 0, 1] (start_bus ?h)) 0)
      = (lock_owner (run example_calls [0, 1, 0, 1] (start_bus ?h)) = Some 0)"
    by blast
  then have o: "lock_owner (run example_calls [0, 1, 0, 1] (start_bus ?h)) = Some 0"
    unfolding p0 by (simp del: run.simps)
  have w: "wire (run example_calls [0, 1, 0, 1, 0, 1, 0, 1, 1, 1, 1] (start_bus ?h))
     = [Wr 0 '':READ3:CURR?\<newline>'', Rd 0 '':7\<newline>'',
        Wr 1 '':READ5:CURR?\<newline>'', Rd 1 '':9\<newline>'']"
    unfolding example_schedule_run by simp
  from fin have "serial (wire (run example_calls [0, 1, 0, 1, 0, 1, 0, 1, 1, 1, 1] (start_bus ?h)))"
    by blast
  with w have s: "serial [Wr 0 '':READ3:CURR?\<newline>'', Rd 0 '':7\<newline>'',
        Wr 1 '':READ5:CURR?\<newline>'', Rd 1 '':9\<newline>'']"
    by (simp del: run.simps)
  have "\<forall>t. \<not> in_exchange (pcs (run example_calls [0, 1, 0, 1, 0, 1, 0, 1, 1, 1, 1] (start_bus ?h)) t)"
    unfolding example_schedule_run by simp
  with fin have n: "lock_owner (run example_calls [0, 1, 0, 1, 0, 1, 0, 1, 1, 1, 1] (start_bus ?h)) = None"
    by blast
  from l p0 p1 o w s n show ?thesis
    by blast
qed

end
